theory Spec2Isabelle
  imports Main "HOL-Library.Word" "HOL-Library.Multiset"
begin

section \<open>The print-job spooler of \<^verbatim>\<open>spool.c\<close>\<close>

text \<open>
  The program keeps a fixed array of print jobs and two counters in global variables, adds
  jobs to it (\<^verbatim>\<open>addJob\<close>), and runs three simulations over it (\<^verbatim>\<open>runFCFS\<close>,
  \<^verbatim>\<open>runSJF\<close>, \<^verbatim>\<open>runPriority\<close>), each of which hands an ordered array to
  \<^verbatim>\<open>calculateMetrics\<close>.

  Conventions of the embedding:
  \<^item> a C \<^verbatim>\<open>int\<close> is a 32-bit word; \<open>+\<close> and \<open>-\<close> wrap around, comparisons are the
    signed ones (\<open>\<le>s\<close>, \<open><s\<close>);
  \<^item> an array is a list of its cells; an access outside the array is the error
    \<open>OutOfBounds\<close>;
  \<^item> what a function prints is what the embedded function returns; the messages written
    for a refused request are the values of the type \<open>error\<close>;
  \<^item> the two values \<^verbatim>\<open>scanf\<close> reads in \<^verbatim>\<open>addJob\<close> are arguments of \<open>addJob\<close>;
  \<^item> the two \<^verbatim>\<open>double\<close> accumulators of \<^verbatim>\<open>calculateMetrics\<close> and the two averages
    computed from them are floating-point values and are not part of the embedding.
\<close>

subsection \<open>Data\<close>

type_synonym int32 = "32 word"

definition MAX_JOBS :: int32 where
  "MAX_JOBS = 100"

record PrintJob =
  job_id :: int32
  page_count :: int32
  priority :: int32

text \<open>
  The memory the program works on: the global array \<^verbatim>\<open>job_queue\<close> and the automatic
  array \<^verbatim>\<open>temp_queue\<close> of \<^verbatim>\<open>runSJF\<close> and \<^verbatim>\<open>runPriority\<close>, each of \<open>MAX_JOBS\<close> cells.
\<close>

datatype array_name = JOB_QUEUE | TEMP_QUEUE

type_synonym store = "array_name \<Rightarrow> PrintJob list"

record state =
  arrays :: store
  job_count :: int32
  next_job_id :: int32

datatype error =
    CapacityExceeded \<comment> \<open>"Error: Print queue is full. Cannot add more jobs."\<close>
  | ValidationError \<comment> \<open>"Error: Page count and priority must be positive."\<close>
  | EmptyQueueError \<comment> \<open>"Cannot run simulation: The print queue is empty."\<close>
  | OutOfBounds \<comment> \<open>an access outside an array (undefined behaviour in C)\<close>

definition zero_job :: PrintJob where
  "zero_job = \<lparr>job_id = 0, page_count = 0, priority = 0\<rparr>"

text \<open>
  The state at program start: globals are zero-initialised, \<^verbatim>\<open>job_count = 0\<close>,
  \<^verbatim>\<open>next_job_id = 1\<close>. No cell of \<^verbatim>\<open>temp_queue\<close> is read before \<^verbatim>\<open>memcpy\<close> has
  written it, so its initial content does not matter.
\<close>

definition initial_state :: state where
  "initial_state =
     \<lparr>arrays = (\<lambda>a. replicate (unat MAX_JOBS) zero_job), job_count = 0, next_job_id = 1\<rparr>"

subsection \<open>\<^verbatim>\<open>addJob\<close>\<close>

text \<open>
  \<open>addJob pages prio st\<close>: \<open>pages\<close> and \<open>prio\<close> are the two numbers read from the input.
  The result is the job added (the "Success" line) or the error printed, and the new state.
\<close>

definition addJob :: "int32 \<Rightarrow> int32 \<Rightarrow> state \<Rightarrow> (error + PrintJob) \<times> state" where
  "addJob pages prio st =
     (if MAX_JOBS \<le>s job_count st then (Inl CapacityExceeded, st)
      else
        let newJob = \<lparr>job_id = next_job_id st, page_count = pages, priority = prio\<rparr>;
            st1 = st\<lparr>next_job_id := next_job_id st + 1\<rparr>
        in
          if pages \<le>s 0 \<or> prio \<le>s 0
          then (Inl ValidationError, st1\<lparr>next_job_id := next_job_id st1 - 1\<rparr>)
          else if job_count st1 <s 0
                 \<or> length (arrays st1 JOB_QUEUE) \<le> nat (sint (job_count st1))
          then (Inl OutOfBounds, st1)
          else
            (Inr newJob,
             st1\<lparr>arrays := (arrays st1)
                     (JOB_QUEUE := (arrays st1 JOB_QUEUE)[nat (sint (job_count st1)) := newJob]),
                 job_count := job_count st1 + 1\<rparr>))"

subsection \<open>The comparators and \<^verbatim>\<open>qsort\<close>\<close>

text \<open>A comparator returns a C \<^verbatim>\<open>int\<close>; the subtraction wraps around.\<close>

type_synonym comparator = "PrintJob \<Rightarrow> PrintJob \<Rightarrow> int32"

definition compareSJF :: comparator where
  "compareSJF jobA jobB = page_count jobA - page_count jobB"

definition comparePriority :: comparator where
  "comparePriority jobA jobB =
     (if priority jobA \<noteq> priority jobB then priority jobA - priority jobB
      else job_id jobA - job_id jobB)"

text \<open>
  \<^verbatim>\<open>qsort\<close> belongs to the C library, not to the program. It is a parameter \<open>qs\<close> of the
  embedding: the function from the comparator and the \<open>n\<close> cells to sort to the sorted
  cells. The C standard (7.22.5) promises of it, for a comparator that is consistent on
  the cells (it orders them totally), that the result holds the same cells in ascending
  order; "if two elements compare as equal, their order in the resulting sorted array is
  unspecified".
\<close>

type_synonym qsort_fn = "comparator \<Rightarrow> PrintJob list \<Rightarrow> PrintJob list"

definition cmp_consistent :: "comparator \<Rightarrow> PrintJob set \<Rightarrow> bool" where
  "cmp_consistent cmp A \<longleftrightarrow>
     (\<forall>a\<in>A. \<forall>b\<in>A. (cmp a b <s 0 \<longleftrightarrow> 0 <s cmp b a)) \<and>
     (\<forall>a\<in>A. \<forall>b\<in>A. \<forall>c\<in>A. cmp a b \<le>s 0 \<and> cmp b c \<le>s 0 \<longrightarrow> cmp a c \<le>s 0)"

definition qsort_contract :: "qsort_fn \<Rightarrow> bool" where
  "qsort_contract qs \<longleftrightarrow>
     (\<forall>cmp xs. cmp_consistent cmp (set xs) \<longrightarrow>
        mset (qs cmp xs) = mset xs \<and> sorted_wrt (\<lambda>a b. cmp a b \<le>s 0) (qs cmp xs))"

text \<open>
  \<^verbatim>\<open>memcpy(dst, src, n * sizeof(PrintJob))\<close> and \<^verbatim>\<open>qsort(base, n, sizeof(PrintJob), cmp)\<close>
  on the store. Both work on the first \<open>n\<close> cells of the arrays they are given and on
  nothing else.
\<close>

definition memcpy :: "array_name \<Rightarrow> array_name \<Rightarrow> nat \<Rightarrow> store \<Rightarrow> error + store" where
  "memcpy dst src n s =
     (if n \<le> length (s src) \<and> n \<le> length (s dst)
      then Inr (s(dst := take n (s src) @ drop n (s dst)))
      else Inl OutOfBounds)"

definition qsort :: "qsort_fn \<Rightarrow> array_name \<Rightarrow> nat \<Rightarrow> comparator \<Rightarrow> store \<Rightarrow> error + store" where
  "qsort qs base n cmp s =
     (if n \<le> length (s base)
      then Inr (s(base := qs cmp (take n (s base)) @ drop n (s base)))
      else Inl OutOfBounds)"

subsection \<open>\<^verbatim>\<open>calculateMetrics\<close>\<close>

text \<open>One printed line of the table: the job, its wait time and its turnaround time.\<close>

record row =
  row_job :: PrintJob
  wait_time :: int32
  turnaround_time :: int32

text \<open>
  The loop \<^verbatim>\<open>for (int i = 0; i < count; i++)\<close> with the clock \<^verbatim>\<open>current_time\<close>;
  it returns the lines from \<open>i\<close> on.
\<close>

function metrics_loop :: "PrintJob list \<Rightarrow> int32 \<Rightarrow> int32 \<Rightarrow> int32 \<Rightarrow> error + row list" where
  "metrics_loop queue cnt i current_time =
     (if i <s cnt then
        if i <s 0 \<or> length queue \<le> nat (sint i) then Inl OutOfBounds
        else
          let job = queue ! nat (sint i);
              wait = current_time;
              turnaround = wait + page_count job
          in case metrics_loop queue cnt (i + 1) (current_time + page_count job) of
               Inl e \<Rightarrow> Inl e
             | Inr rows \<Rightarrow>
                 Inr (\<lparr>row_job = job, wait_time = wait, turnaround_time = turnaround\<rparr> # rows)
      else Inr [])"
  by pat_completeness auto

text \<open>The loop ends: \<open>i\<close> stays below \<open>cnt\<close>, so \<open>i + 1\<close> does not wrap around.\<close>

lemma sint_succ: "i <s (cnt::int32) \<Longrightarrow> sint (i + 1) = sint i + 1"
proof -
  assume "i <s cnt"
  then have "sint i < sint cnt" by (simp add: word_sless_alt)
  moreover have "sint cnt < 2 ^ 31" using sint_lt [of cnt] by simp
  moreover have "- (2 ^ 31) \<le> sint i" using sint_ge [of i] by simp
  ultimately have "signed_take_bit 31 (sint i + 1) = sint i + 1"
    by (intro signed_take_bit_int_eq_self) simp_all
  then show ?thesis by (simp add: sint_word_ariths)
qed

termination metrics_loop
  by (relation "measure (\<lambda>(queue, cnt, i, t). nat (sint cnt - sint i))")
     (auto simp: sint_succ word_sless_alt)

definition calculateMetrics :: "PrintJob list \<Rightarrow> int32 \<Rightarrow> error + row list" where
  "calculateMetrics queue cnt = metrics_loop queue cnt 0 0"

subsection \<open>The simulations\<close>

definition runFCFS :: "state \<Rightarrow> (error + row list) \<times> state" where
  "runFCFS st =
     (if job_count st = 0 then (Inl EmptyQueueError, st)
      else (calculateMetrics (arrays st JOB_QUEUE) (job_count st), st))"

text \<open>
  The element count handed to \<^verbatim>\<open>memcpy\<close> and \<^verbatim>\<open>qsort\<close> is \<^verbatim>\<open>job_count\<close> converted to
  the unsigned \<^verbatim>\<open>size_t\<close>: a negative \<^verbatim>\<open>job_count\<close> is a huge count.
\<close>

definition runSJF :: "qsort_fn \<Rightarrow> state \<Rightarrow> (error + row list) \<times> state" where
  "runSJF qs st =
     (if job_count st = 0 then (Inl EmptyQueueError, st)
      else
        case memcpy TEMP_QUEUE JOB_QUEUE (unat (job_count st)) (arrays st) of
          Inl e \<Rightarrow> (Inl e, st)
        | Inr s1 \<Rightarrow>
            (case qsort qs TEMP_QUEUE (unat (job_count st)) compareSJF s1 of
               Inl e \<Rightarrow> (Inl e, st\<lparr>arrays := s1\<rparr>)
             | Inr s2 \<Rightarrow>
                 (calculateMetrics (s2 TEMP_QUEUE) (job_count st), st\<lparr>arrays := s2\<rparr>)))"

definition runPriority :: "qsort_fn \<Rightarrow> state \<Rightarrow> (error + row list) \<times> state" where
  "runPriority qs st =
     (if job_count st = 0 then (Inl EmptyQueueError, st)
      else
        case memcpy TEMP_QUEUE JOB_QUEUE (unat (job_count st)) (arrays st) of
          Inl e \<Rightarrow> (Inl e, st)
        | Inr s1 \<Rightarrow>
            (case qsort qs TEMP_QUEUE (unat (job_count st)) comparePriority s1 of
               Inl e \<Rightarrow> (Inl e, st\<lparr>arrays := s1\<rparr>)
             | Inr s2 \<Rightarrow>
                 (calculateMetrics (s2 TEMP_QUEUE) (job_count st), st\<lparr>arrays := s2\<rparr>)))"

subsection \<open>\<^verbatim>\<open>displayQueue\<close> and the menu\<close>

text \<open>
  \<^verbatim>\<open>displayQueue\<close> prints the cells \<^verbatim>\<open>job_queue[0 .. job_count - 1]\<close> (nothing but a
  message when \<^verbatim>\<open>job_count\<close> is 0) and writes nothing.
\<close>

definition displayQueue :: "state \<Rightarrow> (error + PrintJob list) \<times> state" where
  "displayQueue st =
     (if job_count st = 0 then (Inr [], st)
      else if length (arrays st JOB_QUEUE) < nat (sint (job_count st)) then (Inl OutOfBounds, st)
      else (Inr (take (nat (sint (job_count st))) (arrays st JOB_QUEUE)), st))"

text \<open>
  The choices 1 to 5 of the menu of \<^verbatim>\<open>main\<close>, the first with the two numbers typed after
  it, and what each prints. \<open>session\<close> is the loop of \<^verbatim>\<open>main\<close> over the choices made;
  choice 6 ends the loop, and any other input only prints a message.
\<close>

datatype command = AddJob int32 int32 | DisplayQueue | RunFCFS | RunSJF | RunPriority

datatype printed =
    Added "error + PrintJob"
  | Listed "error + PrintJob list"
  | Simulated "error + row list"

fun exec :: "qsort_fn \<Rightarrow> command \<Rightarrow> state \<Rightarrow> printed \<times> state" where
  "exec qs (AddJob pages prio) st = (let (r, st') = addJob pages prio st in (Added r, st'))"
| "exec qs DisplayQueue st = (let (r, st') = displayQueue st in (Listed r, st'))"
| "exec qs RunFCFS st = (let (r, st') = runFCFS st in (Simulated r, st'))"
| "exec qs RunSJF st = (let (r, st') = runSJF qs st in (Simulated r, st'))"
| "exec qs RunPriority st = (let (r, st') = runPriority qs st in (Simulated r, st'))"

fun session :: "qsort_fn \<Rightarrow> command list \<Rightarrow> state \<Rightarrow> printed list \<times> state" where
  "session qs [] st = ([], st)"
| "session qs (c # cs) st =
     (let (out, st1) = exec qs c st;
          (outs, st2) = session qs cs st1
      in (out # outs, st2))"

subsection \<open>A \<^verbatim>\<open>qsort\<close> that keeps the contract\<close>

text \<open>
  Selection sort as C libraries use it on short arrays: find the largest of the cells
  \<open>0..hi\<close>, swap it with cell \<open>hi\<close>, and go on with the cells below \<open>hi\<close>.
\<close>

primrec max_pos :: "comparator \<Rightarrow> PrintJob list \<Rightarrow> nat \<Rightarrow> nat" where
  "max_pos cmp xs 0 = 0"
| "max_pos cmp xs (Suc p) =
     (let m = max_pos cmp xs p in if 0 <s cmp (xs ! Suc p) (xs ! m) then Suc p else m)"

primrec selection_pass :: "comparator \<Rightarrow> nat \<Rightarrow> PrintJob list \<Rightarrow> PrintJob list" where
  "selection_pass cmp 0 xs = xs"
| "selection_pass cmp (Suc hi) xs =
     (let m = max_pos cmp xs (Suc hi)
      in selection_pass cmp hi (xs[m := xs ! Suc hi, Suc hi := xs ! m]))"

definition selection_qsort :: qsort_fn where
  "selection_qsort cmp xs = selection_pass cmp (length xs - 1) xs"

section \<open>Notions used in the statements\<close>

text \<open>
  The jobs of the repository in submission order: the cells \<^verbatim>\<open>job_queue[0 .. job_count - 1]\<close>.
\<close>

definition pending :: "state \<Rightarrow> PrintJob list" where
  "pending st = take (nat (sint (job_count st))) (arrays st JOB_QUEUE)"

text \<open>
  The invariant of the repository: the array \<^verbatim>\<open>job_queue\<close> has its \<open>MAX_JOBS\<close> cells,
  \<open>0 \<le> job_count \<le> MAX_JOBS\<close>, \<open>next_job_id = job_count + 1\<close>, and the job in cell \<open>i\<close>
  below \<open>job_count\<close> has the id \<open>i + 1\<close>.
\<close>

definition repo_inv :: "state \<Rightarrow> bool" where
  "repo_inv st \<longleftrightarrow>
     length (arrays st JOB_QUEUE) = unat MAX_JOBS \<and>
     0 \<le>s job_count st \<and> job_count st \<le>s MAX_JOBS \<and>
     next_job_id st = job_count st + 1 \<and>
     (\<forall>i < nat (sint (job_count st)). job_id (arrays st JOB_QUEUE ! i) = word_of_nat (i + 1))"

text \<open>
  Every job in the repository has a positive page count and a positive priority.
\<close>

definition jobs_positive :: "state \<Rightarrow> bool" where
  "jobs_positive st \<longleftrightarrow> (\<forall>j \<in> set (pending st). 0 <s page_count j \<and> 0 <s priority j)"

text \<open>
  The jobs the "Success" lines of a session report, in the order they were printed.
\<close>

fun accepted :: "printed list \<Rightarrow> PrintJob list" where
  "accepted [] = []"
| "accepted (Added (Inr j) # outs) = j # accepted outs"
| "accepted (out # outs) = accepted outs"

text \<open>
  The lines of the table for a list of jobs served one after the other from time \<open>t\<close>:
  the closed form of the loop of \<^verbatim>\<open>calculateMetrics\<close>.
\<close>

fun timeline :: "PrintJob list \<Rightarrow> int32 \<Rightarrow> row list" where
  "timeline [] t = []"
| "timeline (job # jobs) t =
     \<lparr>row_job = job, wait_time = t, turnaround_time = t + page_count job\<rparr>
       # timeline jobs (t + page_count job)"

text \<open>
  The array \<^verbatim>\<open>temp_queue\<close> has its \<open>MAX_JOBS\<close> cells.
\<close>

definition temp_ok :: "state \<Rightarrow> bool" where
  "temp_ok st \<longleftrightarrow> length (arrays st TEMP_QUEUE) = unat MAX_JOBS"

section \<open>Lemmas\<close>

subsection \<open>Word arithmetic\<close>

lemma sint_sub_nonneg:
  "0 \<le> sint (a::int32) \<Longrightarrow> 0 \<le> sint (b::int32) \<Longrightarrow> sint (a - b) = sint a - sint b"
proof -
  assume "0 \<le> sint a" "0 \<le> sint b"
  moreover have "sint a < 2 ^ 31" "sint b < 2 ^ 31" using sint_lt [of a] sint_lt [of b] by simp_all
  ultimately have "signed_take_bit 31 (sint a - sint b) = sint a - sint b"
    by (intro signed_take_bit_int_eq_self) simp_all
  then show ?thesis by (simp add: sint_word_ariths)
qed

lemma sint_MAX_JOBS: "sint MAX_JOBS = 100" "unat MAX_JOBS = 100"
  by (simp_all add: MAX_JOBS_def)

subsection \<open>\<^verbatim>\<open>addJob\<close> and the invariant of the repository\<close>

lemma addJob_rejected:
  "addJob pages prio st = (Inl e, st') \<Longrightarrow> e \<noteq> OutOfBounds \<Longrightarrow> st' = st"
  by (auto simp: addJob_def Let_def split: if_splits)

lemma addJob_accepted:
  assumes "addJob pages prio st = (Inr j, st')"
  shows "j = \<lparr>job_id = next_job_id st, page_count = pages, priority = prio\<rparr>"
    and "sint (job_count st) < 100" and "0 \<le> sint (job_count st)"
    and "nat (sint (job_count st)) < length (arrays st JOB_QUEUE)"
    and "0 < sint pages" and "0 < sint prio"
    and "st' = st\<lparr>arrays := (arrays st)(JOB_QUEUE := (arrays st JOB_QUEUE)[nat (sint (job_count st)) := j]),
                   job_count := job_count st + 1, next_job_id := next_job_id st + 1\<rparr>"
  using assms
  by (auto simp: addJob_def Let_def word_sle_eq word_sless_alt sint_MAX_JOBS split: if_splits)

lemma addJob_no_fault:
  assumes "repo_inv st"
  shows "fst (addJob pages prio st) \<noteq> Inl OutOfBounds"
  using assms
  by (auto simp: repo_inv_def addJob_def Let_def word_sle_eq word_sless_alt sint_MAX_JOBS split: if_splits)

lemma sint_job_count_succ:
  "sint (c::int32) < 100 \<Longrightarrow> sint (c + 1) = sint c + 1"
  using sint_succ [of c MAX_JOBS] by (simp add: word_sless_alt sint_MAX_JOBS)

lemma pending_addJob:
  assumes "addJob pages prio st = (Inr j, st')"
  shows "pending st' = pending st @ [j]"
proof -
  let ?n = "nat (sint (job_count st))"
  note a = addJob_accepted [OF assms]
  have "sint (job_count st') = sint (job_count st) + 1"
    using a(2) a(7) by (simp add: sint_job_count_succ)
  then have n': "nat (sint (job_count st')) = Suc ?n" using a(3) by simp
  have "take (Suc ?n) ((arrays st JOB_QUEUE)[?n := j]) = take ?n (arrays st JOB_QUEUE) @ [j]"
    using a(4) by (simp add: take_Suc_conv_app_nth)
  then show ?thesis using n' a(7) by (simp add: pending_def)
qed

lemma repo_inv_addJob:
  assumes "repo_inv st"
  shows "repo_inv (snd (addJob pages prio st))"
proof (cases "addJob pages prio st")
  case (Pair r st')
  show ?thesis
  proof (cases r)
    case (Inl e)
    then have "st' = st" using Pair addJob_rejected addJob_no_fault [OF assms, of pages prio] by auto
    then show ?thesis using assms Pair by simp
  next
    case (Inr j)
    note a = addJob_accepted [OF Pair [unfolded Inr]]
    let ?n = "nat (sint (job_count st))"
    have s: "sint (job_count st') = sint (job_count st) + 1"
      using a(2) a(7) by (simp add: sint_job_count_succ)
    have idj: "job_id j = word_of_nat (?n + 1)"
      using a(1) a(3) assms by (simp add: repo_inv_def)
    have "\<forall>i < Suc ?n. job_id (arrays st' JOB_QUEUE ! i) = word_of_nat (i + 1)"
    proof (intro allI impI)
      fix i assume "i < Suc ?n"
      show "job_id (arrays st' JOB_QUEUE ! i) = word_of_nat (i + 1)"
      proof (cases "i = ?n")
        case True
        then show ?thesis using a(4) a(7) idj by simp
      next
        case False
        then have "i < ?n" using \<open>i < Suc ?n\<close> by simp
        then show ?thesis using assms a(7) False by (simp add: repo_inv_def)
      qed
    qed
    moreover have "nat (sint (job_count st')) = Suc ?n" using s a(3) by simp
    ultimately show ?thesis
      using assms a(2) a(3) a(7) s Pair
      by (simp add: repo_inv_def word_sle_eq sint_MAX_JOBS)
  qed
qed

subsection \<open>The simulations leave the repository alone\<close>

lemma repo_inv_cong:
  "arrays st' JOB_QUEUE = arrays st JOB_QUEUE \<Longrightarrow> job_count st' = job_count st \<Longrightarrow>
   next_job_id st' = next_job_id st \<Longrightarrow> repo_inv st' = repo_inv st"
  by (simp add: repo_inv_def)

lemma runFCFS_state: "snd (runFCFS st) = st"
  by (simp add: runFCFS_def)

lemma displayQueue_state: "snd (displayQueue st) = st"
  by (simp add: displayQueue_def)

lemma runSJF_frame:
  "arrays (snd (runSJF qs st)) JOB_QUEUE = arrays st JOB_QUEUE"
  "job_count (snd (runSJF qs st)) = job_count st"
  "next_job_id (snd (runSJF qs st)) = next_job_id st"
  by (auto simp: runSJF_def memcpy_def qsort_def split: sum.splits if_splits)

lemma runPriority_frame:
  "arrays (snd (runPriority qs st)) JOB_QUEUE = arrays st JOB_QUEUE"
  "job_count (snd (runPriority qs st)) = job_count st"
  "next_job_id (snd (runPriority qs st)) = next_job_id st"
  by (auto simp: runPriority_def memcpy_def qsort_def split: sum.splits if_splits)

subsection \<open>Sessions\<close>

lemma snd_exec:
  "snd (exec qs (AddJob pages prio) st) = snd (addJob pages prio st)"
  "snd (exec qs DisplayQueue st) = st"
  "snd (exec qs RunFCFS st) = st"
  "snd (exec qs RunSJF st) = snd (runSJF qs st)"
  "snd (exec qs RunPriority st) = snd (runPriority qs st)"
  by (simp_all add: split_def Let_def displayQueue_state runFCFS_state)

lemma fst_exec:
  "fst (exec qs (AddJob pages prio) st) = Added (fst (addJob pages prio st))"
  "fst (exec qs DisplayQueue st) = Listed (fst (displayQueue st))"
  "fst (exec qs RunFCFS st) = Simulated (fst (runFCFS st))"
  "fst (exec qs RunSJF st) = Simulated (fst (runSJF qs st))"
  "fst (exec qs RunPriority st) = Simulated (fst (runPriority qs st))"
  by (simp_all add: split_def Let_def)

lemma session_Cons:
  "snd (session qs (c # cs) st) = snd (session qs cs (snd (exec qs c st)))"
  "fst (session qs (c # cs) st) = fst (exec qs c st) # fst (session qs cs (snd (exec qs c st)))"
  by (simp_all add: split_def Let_def)

declare exec.simps [simp del] session.simps(2) [simp del]

lemma exec_repo_inv:
  assumes "repo_inv st"
  shows "repo_inv (snd (exec qs c st))"
proof (cases c)
  case (AddJob pages prio)
  then show ?thesis using repo_inv_addJob [OF assms, of pages prio] by (simp add: snd_exec)
next
  case DisplayQueue
  then show ?thesis using assms by (simp add: snd_exec)
next
  case RunFCFS
  then show ?thesis using assms by (simp add: snd_exec)
next
  case RunSJF
  then show ?thesis using assms by (simp add: snd_exec repo_inv_cong [OF runSJF_frame])
next
  case RunPriority
  then show ?thesis using assms by (simp add: snd_exec repo_inv_cong [OF runPriority_frame])
qed

lemma session_repo_inv:
  "repo_inv st \<Longrightarrow> repo_inv (snd (session qs cmds st))"
proof (induction cmds arbitrary: st)
  case Nil
  then show ?case by simp
next
  case (Cons c cs)
  have "repo_inv (snd (exec qs c st))" using Cons.prems by (rule exec_repo_inv)
  then have "repo_inv (snd (session qs cs (snd (exec qs c st))))" by (rule Cons.IH)
  then show ?case by (simp only: session_Cons)
qed

lemma repo_inv_initial: "repo_inv initial_state"
  by (simp add: repo_inv_def initial_state_def word_sle_eq sint_MAX_JOBS)

lemma session_accepted:
  assumes "repo_inv st"
  shows "map (\<lambda>j. sint (job_id j)) (accepted (fst (session qs cmds st))) =
           map int [Suc (nat (sint (job_count st))) ..<
                    Suc (nat (sint (job_count st))) + length (accepted (fst (session qs cmds st)))]"
  using assms
proof (induction cmds arbitrary: st)
  case Nil
  then show ?case by simp
next
  case (Cons c cs)
  let ?st1 = "snd (exec qs c st)"
  let ?n = "nat (sint (job_count st))"
  have inv1: "repo_inv ?st1" using Cons.prems by (rule exec_repo_inv)
  note IH = Cons.IH [OF inv1]
  show ?case
  proof (cases "\<exists>pages prio j. c = AddJob pages prio \<and> fst (addJob pages prio st) = Inr j")
    case True
    then obtain pages prio j where c: "c = AddJob pages prio"
      and r: "fst (addJob pages prio st) = Inr j" by blast
    have eq: "addJob pages prio st = (Inr j, ?st1)"
      using c r by (simp add: snd_exec prod_eq_iff)
    note a = addJob_accepted [OF eq]
    have n1: "nat (sint (job_count ?st1)) = Suc ?n"
      using a(2) a(3) a(7) by (simp add: sint_job_count_succ)
    have "sint (job_id j) = sint (job_count st) + 1"
      using a(1) a(2) Cons.prems by (simp add: repo_inv_def sint_job_count_succ)
    then have idj: "sint (job_id j) = int (Suc ?n)" using a(3) by simp
    have out: "fst (exec qs c st) = Added (Inr j)" using c r by (simp add: fst_exec)
    let ?A = "accepted (fst (session qs cs ?st1))"
    have "[Suc ?n ..< Suc ?n + Suc (length ?A)] = Suc ?n # [Suc (Suc ?n) ..< Suc (Suc ?n) + length ?A]"
      by (subst upt_conv_Cons) simp_all
    moreover have "accepted (fst (session qs (c # cs) st)) = j # ?A"
      by (simp add: session_Cons out)
    ultimately show ?thesis
      using IH idj n1 by (simp del: upt_Suc)
  next
    case False
    have frame: "job_count ?st1 = job_count st"
    proof (cases c)
      case (AddJob pages prio)
      obtain r st' where eq: "addJob pages prio st = (r, st')" by (cases "addJob pages prio st")
      with False AddJob obtain e where r: "r = Inl e" by (cases r) auto
      have "e \<noteq> OutOfBounds" using addJob_no_fault [OF Cons.prems, of pages prio] eq r by auto
      then have "st' = st" using addJob_rejected eq r by blast
      then show ?thesis using AddJob eq by (simp add: snd_exec)
    qed (simp_all add: snd_exec runSJF_frame runPriority_frame)
    have acc: "accepted (fst (exec qs c st) # outs) = accepted outs" for outs
    proof (cases c)
      case (AddJob pages prio)
      with False obtain e where "fst (addJob pages prio st) = Inl e"
        by (cases "fst (addJob pages prio st)") auto
      then show ?thesis using AddJob by (simp add: fst_exec)
    qed (simp_all add: fst_exec)
    show ?thesis using IH frame by (simp add: session_Cons acc)
  qed
qed

subsection \<open>The loop of \<^verbatim>\<open>calculateMetrics\<close>\<close>

declare metrics_loop.simps [simp del]

lemma metrics_loop_timeline:
  "0 \<le> sint i \<Longrightarrow> nat (sint cnt) \<le> length queue \<Longrightarrow>
   metrics_loop queue cnt i t = Inr (timeline (drop (nat (sint i)) (take (nat (sint cnt)) queue)) t)"
proof (induction queue cnt i t rule: metrics_loop.induct)
  case (1 queue cnt i t)
  show ?case
  proof (cases "i <s cnt")
    case True
    then have lt: "sint i < sint cnt" by (simp add: word_sless_alt)
    have i1: "sint (i + 1) = sint i + 1" using True by (rule sint_succ)
    have inb: "nat (sint i) < length queue" using lt "1.prems" by simp
    have nlt: "\<not> i <s 0" using "1.prems"(1) by (simp add: word_sless_alt)
    have IH: "metrics_loop queue cnt (i + 1) (t + page_count (queue ! nat (sint i))) =
       Inr (timeline (drop (Suc (nat (sint i))) (take (nat (sint cnt)) queue)) (t + page_count (queue ! nat (sint i))))"
      using "1.IH" [OF True _ refl refl refl] nlt inb "1.prems" i1 by (simp add: nat_add_distrib)
    have "drop (nat (sint i)) (take (nat (sint cnt)) queue) =
          queue ! nat (sint i) # drop (Suc (nat (sint i))) (take (nat (sint cnt)) queue)"
      using lt "1.prems" by (subst Cons_nth_drop_Suc [symmetric]) simp_all
    then show ?thesis
      using True nlt inb IH by (subst metrics_loop.simps) (simp add: Let_def)
  next
    case False
    then have "sint cnt \<le> sint i" by (simp add: word_sless_alt)
    then have "drop (nat (sint i)) (take (nat (sint cnt)) queue) = []" by simp
    then show ?thesis using False by (subst metrics_loop.simps) simp
  qed
qed

lemma calculateMetrics_timeline:
  "nat (sint cnt) \<le> length queue \<Longrightarrow>
   calculateMetrics queue cnt = Inr (timeline (take (nat (sint cnt)) queue) 0)"
  using metrics_loop_timeline [of 0 cnt queue 0] by (simp add: calculateMetrics_def)

lemma length_timeline: "length (timeline jobs t) = length jobs"
  by (induction jobs arbitrary: t) simp_all

lemma map_row_job_timeline: "map row_job (timeline jobs t) = jobs"
  by (induction jobs arbitrary: t) simp_all

lemma timeline_nth:
  "k < length jobs \<Longrightarrow>
   timeline jobs t ! k =
     \<lparr>row_job = jobs ! k,
      wait_time = t + sum_list (map page_count (take k jobs)),
      turnaround_time = t + sum_list (map page_count (take k jobs)) + page_count (jobs ! k)\<rparr>"
proof (induction jobs arbitrary: t k)
  case Nil
  then show ?case by simp
next
  case (Cons job jobs)
  show ?case
  proof (cases k)
    case 0
    then show ?thesis by simp
  next
    case (Suc k')
    then show ?thesis using Cons by (simp add: add.assoc)
  qed
qed

text \<open>
  Whatever the page counts, each addition of the loop is the addition of C \<^verbatim>\<open>int\<close>: on
  32-bit words the wait time of a line is the wait time of the line before plus the page count
  of the job before, and the turnaround time is the wait time plus the page count.
\<close>

lemma calculateMetrics_times_word:
  assumes "0 <s cnt" and "nat (sint cnt) \<le> length queue"
  shows "\<exists>rows. calculateMetrics queue cnt = Inr rows \<and> length rows = nat (sint cnt) \<and>
     wait_time (rows ! 0) = 0 \<and>
     (\<forall>k. 0 < k \<and> k < nat (sint cnt) \<longrightarrow>
        wait_time (rows ! k) = wait_time (rows ! (k - 1)) + page_count (queue ! (k - 1))) \<and>
     (\<forall>k < nat (sint cnt).
        row_job (rows ! k) = queue ! k \<and>
        turnaround_time (rows ! k) = wait_time (rows ! k) + page_count (queue ! k))"
proof -
  let ?n = "nat (sint cnt)"
  let ?js = "take ?n queue"
  let ?rows = "timeline ?js 0"
  have len: "length ?js = ?n" using assms(2) by simp
  have pos: "0 < ?n" using assms(1) by (simp add: word_sless_alt)
  have nth: "timeline ?js 0 ! k =
     \<lparr>row_job = queue ! k,
      wait_time = sum_list (map page_count (take k queue)),
      turnaround_time = sum_list (map page_count (take k queue)) + page_count (queue ! k)\<rparr>"
    if "k < ?n" for k
    using that len timeline_nth [of k ?js 0] by (simp add: min_def)
  have "calculateMetrics queue cnt = Inr ?rows" using assms(2) by (rule calculateMetrics_timeline)
  moreover have "length ?rows = ?n" using len by (simp add: length_timeline)
  moreover have "wait_time (?rows ! 0) = 0" using nth [OF pos] by simp
  moreover have "wait_time (?rows ! k) = wait_time (?rows ! (k - 1)) + page_count (queue ! (k - 1))"
    if "0 < k \<and> k < ?n" for k
  proof -
    from that have "0 < k" by simp
    then obtain k' where k: "k = Suc k'" using gr0_implies_Suc by blast
    have "k' < length queue" using that k assms(2) by simp
    then have "take (Suc k') queue = take k' queue @ [queue ! k']" by (rule take_Suc_conv_app_nth)
    then show ?thesis using that k nth [of k] nth [of k'] by simp
  qed
  moreover have "row_job (?rows ! k) = queue ! k \<and>
        turnaround_time (?rows ! k) = wait_time (?rows ! k) + page_count (queue ! k)"
    if "k < ?n" for k using nth [OF that] by simp
  ultimately show ?thesis by blast
qed

subsection \<open>Filling the repository\<close>

lemma addJob_accepts:
  assumes "repo_inv st" and "sint (job_count st) < 100" and "0 <s pages" and "0 <s prio"
  shows "\<exists>j. fst (addJob pages prio st) = Inr j"
  using assms
  by (auto simp: repo_inv_def addJob_def Let_def word_sle_eq word_sless_alt sint_MAX_JOBS)

lemma job_count_addJob:
  assumes "fst (addJob pages prio st) = Inr j"
  shows "sint (job_count (snd (addJob pages prio st))) = sint (job_count st) + 1"
proof -
  have eq: "addJob pages prio st = (Inr j, snd (addJob pages prio st))"
    using assms by (simp add: prod_eq_iff)
  note a = addJob_accepted [OF eq]
  show ?thesis using a(2) by (subst a(7)) (simp add: sint_job_count_succ)
qed

lemma session_fill:
  assumes "0 <s pages" and "0 <s prio"
  shows "repo_inv st \<Longrightarrow> sint (job_count st) + int k \<le> 100 \<Longrightarrow>
     sint (job_count (snd (session qs (replicate k (AddJob pages prio)) st))) = sint (job_count st) + int k"
proof (induction k arbitrary: st)
  case 0
  then show ?case by simp
next
  case (Suc k)
  let ?st1 = "snd (addJob pages prio st)"
  obtain j where j: "fst (addJob pages prio st) = Inr j"
    using addJob_accepts [OF Suc.prems(1) _ assms] Suc.prems(2) by auto
  have c1: "sint (job_count ?st1) = sint (job_count st) + 1" using j by (rule job_count_addJob)
  have "repo_inv ?st1" using Suc.prems(1) by (rule repo_inv_addJob)
  then have "sint (job_count (snd (session qs (replicate k (AddJob pages prio)) ?st1))) =
      sint (job_count ?st1) + int k"
    using Suc.prems(2) c1 by (intro Suc.IH) simp_all
  then show ?case using c1 by (simp add: session_Cons snd_exec)
qed

lemma full_state:
  "job_count (snd (session qs (replicate 100 (AddJob 1 1)) initial_state)) = 100"
proof -
  have "sint (job_count (snd (session qs (replicate 100 (AddJob 1 1)) initial_state))) =
     sint (job_count initial_state) + int 100"
  proof (rule session_fill)
    show "sint (job_count initial_state) + int 100 \<le> 100" by (simp add: initial_state_def)
  qed (simp_all add: repo_inv_initial word_sless_alt)
  then have "sint (job_count (snd (session qs (replicate 100 (AddJob 1 1)) initial_state))) = sint (100::int32)"
    by (simp add: initial_state_def)
  then show ?thesis by (rule signed_word_eqI)
qed

subsection \<open>The jobs of a repository a session reaches\<close>

lemma sint_word_of_nat_small:
  "n \<le> 100 \<Longrightarrow> sint (word_of_nat n :: int32) = int n"
proof -
  assume "n \<le> 100"
  then have "signed_take_bit 31 (int n) = int n"
    by (intro signed_take_bit_int_eq_self) simp_all
  then show ?thesis by (simp add: signed_of_nat)
qed

lemma repo_inv_bounds:
  assumes "repo_inv st"
  shows "0 \<le> sint (job_count st)" and "sint (job_count st) \<le> 100"
    and "nat (sint (job_count st)) \<le> 100" and "length (arrays st JOB_QUEUE) = 100"
  using assms by (auto simp: repo_inv_def word_sle_eq sint_MAX_JOBS)

lemma length_pending:
  "repo_inv st \<Longrightarrow> length (pending st) = nat (sint (job_count st))"
  using repo_inv_bounds [of st] by (simp add: pending_def)

lemma pending_ids:
  assumes "repo_inv st"
  shows "map (\<lambda>j. sint (job_id j)) (pending st) = map int [1 ..< Suc (length (pending st))]"
proof (rule nth_equalityI)
  show "length (map (\<lambda>j. sint (job_id j)) (pending st)) = length (map int [1 ..< Suc (length (pending st))])"
    by (simp del: upt_Suc)
next
  fix i assume "i < length (map (\<lambda>j. sint (job_id j)) (pending st))"
  then have i: "i < nat (sint (job_count st))" using length_pending [OF assms] by simp
  then have "i + 1 \<le> 100" using repo_inv_bounds(3) [OF assms] by simp
  then have "sint (word_of_nat (i + 1) :: int32) = int (i + 1)" by (rule sint_word_of_nat_small)
  moreover have "job_id (pending st ! i) = word_of_nat (i + 1)"
    using i assms by (simp add: repo_inv_def pending_def)
  ultimately show "map (\<lambda>j. sint (job_id j)) (pending st) ! i = map int [1 ..< Suc (length (pending st))] ! i"
    using i length_pending [OF assms] by (simp add: nth_upt del: upt_Suc)
qed

lemma jobs_positive_initial: "jobs_positive initial_state"
  by (simp add: jobs_positive_def pending_def initial_state_def)

lemma jobs_positive_cong:
  "arrays st' JOB_QUEUE = arrays st JOB_QUEUE \<Longrightarrow> job_count st' = job_count st \<Longrightarrow>
   jobs_positive st' = jobs_positive st"
  by (simp add: jobs_positive_def pending_def)

lemma jobs_positive_addJob:
  assumes "repo_inv st" and "jobs_positive st"
  shows "jobs_positive (snd (addJob pages prio st))"
proof (cases "addJob pages prio st")
  case (Pair r st')
  show ?thesis
  proof (cases r)
    case (Inl e)
    then have "st' = st"
      using Pair addJob_rejected addJob_no_fault [OF assms(1), of pages prio] by auto
    then show ?thesis using assms Pair by simp
  next
    case (Inr j)
    note eq = Pair [unfolded Inr]
    note a = addJob_accepted [OF eq]
    have "pending st' = pending st @ [j]" using eq by (rule pending_addJob)
    then show ?thesis
      using assms(2) a(1) a(5) a(6) Pair by (auto simp: jobs_positive_def word_sless_alt)
  qed
qed

lemma pending_job_bounds:
  assumes "repo_inv st" and "jobs_positive st" and "j \<in> set (pending st)"
  shows "0 < sint (job_id j)" and "0 < sint (page_count j)" and "0 < sint (priority j)"
proof -
  have "sint (job_id j) \<in> set (map (\<lambda>j. sint (job_id j)) (pending st))"
    using assms(3) by simp
  then have "sint (job_id j) \<in> set (map int [1 ..< Suc (length (pending st))])"
    by (simp only: pending_ids [OF assms(1)])
  then show "0 < sint (job_id j)" by auto
  show "0 < sint (page_count j)" and "0 < sint (priority j)"
    using assms(2,3) by (simp_all add: jobs_positive_def word_sless_alt)
qed

subsection \<open>The comparators are consistent on them\<close>

lemma compareSJF_consistent:
  assumes "\<forall>j\<in>A. 0 \<le> sint (page_count j)"
  shows "cmp_consistent compareSJF A"
proof -
  have "sint (compareSJF a b) = sint (page_count a) - sint (page_count b)"
    if "a \<in> A" and "b \<in> A" for a b
    using that assms by (simp add: compareSJF_def sint_sub_nonneg)
  then show ?thesis
    by (simp add: cmp_consistent_def word_sle_eq word_sless_alt)
qed

lemma comparePriority_sint:
  assumes "0 \<le> sint (priority a)" "0 \<le> sint (priority b)"
    and "0 \<le> sint (job_id a)" "0 \<le> sint (job_id b)"
  shows "sint (comparePriority a b) =
     (if sint (priority a) \<noteq> sint (priority b) then sint (priority a) - sint (priority b)
      else sint (job_id a) - sint (job_id b))"
  using assms by (simp add: comparePriority_def sint_sub_nonneg word_eq_iff_signed [where ?'a = int])

lemma comparePriority_consistent:
  assumes "\<forall>j\<in>A. 0 \<le> sint (priority j) \<and> 0 \<le> sint (job_id j)"
  shows "cmp_consistent comparePriority A"
proof -
  have "sint (comparePriority a b) =
     (if sint (priority a) \<noteq> sint (priority b) then sint (priority a) - sint (priority b)
      else sint (job_id a) - sint (job_id b))"
    if "a \<in> A" and "b \<in> A" for a b
    using that assms by (intro comparePriority_sint) simp_all
  then show ?thesis
    by (auto simp: cmp_consistent_def word_sle_eq word_sless_alt)
qed

lemma pending_consistent:
  assumes "repo_inv st" and "jobs_positive st"
  shows "cmp_consistent compareSJF (set (pending st))"
    and "cmp_consistent comparePriority (set (pending st))"
proof -
  show "cmp_consistent compareSJF (set (pending st))"
    using pending_job_bounds(2) [OF assms] by (intro compareSJF_consistent) (simp add: less_imp_le)
  show "cmp_consistent comparePriority (set (pending st))"
    using pending_job_bounds(1,3) [OF assms]
    by (intro comparePriority_consistent) (simp add: less_imp_le)
qed

lemma unat_sint_nonneg:
  assumes "0 \<le> sint (w::int32)"
  shows "unat w = nat (sint w)"
proof -
  have "sint w < 2 ^ 31" using sint_lt [of w] by simp
  then have "nat (sint w) < 2 ^ 32" using assms by simp
  then have "unat (word_of_nat (nat (sint w)) :: int32) = nat (sint w)"
    by (simp add: unat_of_nat)
  then show ?thesis using assms by simp
qed

lemma unat_job_count:
  "repo_inv st \<Longrightarrow> unat (job_count st) = nat (sint (job_count st))"
  by (rule unat_sint_nonneg) (rule repo_inv_bounds)

subsection \<open>Sorting the copy\<close>

lemma qsort_contractD:
  assumes "qsort_contract qs" and "cmp_consistent cmp (set xs)"
  shows "mset (qs cmp xs) = mset xs" and "sorted_wrt (\<lambda>a b. cmp a b \<le>s 0) (qs cmp xs)"
    and "length (qs cmp xs) = length xs" and "set (qs cmp xs) = set xs"
proof -
  show m: "mset (qs cmp xs) = mset xs" and "sorted_wrt (\<lambda>a b. cmp a b \<le>s 0) (qs cmp xs)"
    using assms by (simp_all add: qsort_contract_def)
  show "length (qs cmp xs) = length xs" using m by (rule mset_eq_length)
  show "set (qs cmp xs) = set xs" using m by (rule mset_eq_setD)
qed

text \<open>
  What \<^verbatim>\<open>memcpy\<close>, \<^verbatim>\<open>qsort\<close> and \<^verbatim>\<open>calculateMetrics\<close> do one after the other in
  \<^verbatim>\<open>runSJF\<close> and \<^verbatim>\<open>runPriority\<close>.
\<close>

lemma sort_and_measure:
  assumes c: "qsort_contract qs" and inv: "repo_inv st" and t: "temp_ok st"
    and cons: "cmp_consistent cmp (set (pending st))"
  shows "\<exists>s1 s2.
     memcpy TEMP_QUEUE JOB_QUEUE (unat (job_count st)) (arrays st) = Inr s1 \<and>
     qsort qs TEMP_QUEUE (unat (job_count st)) cmp s1 = Inr s2 \<and>
     s2 JOB_QUEUE = arrays st JOB_QUEUE \<and>
     length (s2 TEMP_QUEUE) = unat MAX_JOBS \<and>
     calculateMetrics (s2 TEMP_QUEUE) (job_count st) = Inr (timeline (qs cmp (pending st)) 0)"
proof -
  let ?n = "nat (sint (job_count st))"
  let ?s1 = "(arrays st)(TEMP_QUEUE := take ?n (arrays st JOB_QUEUE) @ drop ?n (arrays st TEMP_QUEUE))"
  let ?s2 = "?s1(TEMP_QUEUE := qs cmp (take ?n (?s1 TEMP_QUEUE)) @ drop ?n (?s1 TEMP_QUEUE))"
  note b = repo_inv_bounds [OF inv]
  have un: "unat (job_count st) = ?n" using inv by (rule unat_job_count)
  have lt: "length (arrays st TEMP_QUEUE) = 100" using t by (simp add: temp_ok_def sint_MAX_JOBS)
  have m: "memcpy TEMP_QUEUE JOB_QUEUE (unat (job_count st)) (arrays st) = Inr ?s1"
    using b lt by (simp add: memcpy_def un)
  have l1: "length (?s1 TEMP_QUEUE) = 100" using b lt by simp
  have q: "qsort qs TEMP_QUEUE (unat (job_count st)) cmp ?s1 = Inr ?s2"
    using b l1 by (simp add: qsort_def un)
  have tk: "take ?n (?s1 TEMP_QUEUE) = pending st" using b by (simp add: pending_def)
  have lq: "length (qs cmp (pending st)) = ?n"
    using qsort_contractD(3) [OF c cons] length_pending [OF inv] by simp
  have s2t: "?s2 TEMP_QUEUE = qs cmp (pending st) @ drop ?n (?s1 TEMP_QUEUE)"
    using tk by simp
  have l2: "length (?s2 TEMP_QUEUE) = 100" using b l1 lq by (simp only: s2t length_append length_drop)
  have "calculateMetrics (?s2 TEMP_QUEUE) (job_count st) =
      Inr (timeline (take ?n (?s2 TEMP_QUEUE)) 0)"
    using b l2 by (intro calculateMetrics_timeline) simp
  moreover have "take ?n (?s2 TEMP_QUEUE) = qs cmp (pending st)"
    using lq by (simp only: s2t) simp
  ultimately have cm: "calculateMetrics (?s2 TEMP_QUEUE) (job_count st) =
      Inr (timeline (qs cmp (pending st)) 0)" by simp
  have "?s2 JOB_QUEUE = arrays st JOB_QUEUE" by simp
  with m q l2 cm show ?thesis by (simp only: sint_MAX_JOBS) blast
qed

lemma runSJF_rows:
  assumes "qsort_contract qs" and "repo_inv st" and "jobs_positive st" and "temp_ok st"
    and "job_count st \<noteq> 0"
  shows "fst (runSJF qs st) = Inr (timeline (qs compareSJF (pending st)) 0)"
  using sort_and_measure [OF assms(1,2,4) pending_consistent(1) [OF assms(2,3)]] assms(5)
  by (auto simp: runSJF_def)

lemma runPriority_rows:
  assumes "qsort_contract qs" and "repo_inv st" and "jobs_positive st" and "temp_ok st"
    and "job_count st \<noteq> 0"
  shows "fst (runPriority qs st) = Inr (timeline (qs comparePriority (pending st)) 0)"
  using sort_and_measure [OF assms(1,2,4) pending_consistent(2) [OF assms(2,3)]] assms(5)
  by (auto simp: runPriority_def)

lemma runFCFS_rows:
  assumes "repo_inv st" and "job_count st \<noteq> 0"
  shows "fst (runFCFS st) = Inr (timeline (pending st) 0)"
  using repo_inv_bounds [OF assms(1)] assms(2)
  by (simp add: runFCFS_def pending_def calculateMetrics_timeline)

lemma runSJF_temp_ok:
  assumes "qsort_contract qs" and "repo_inv st" and "jobs_positive st" and "temp_ok st"
  shows "temp_ok (snd (runSJF qs st))"
  using sort_and_measure [OF assms(1,2,4) pending_consistent(1) [OF assms(2,3)]] assms(4)
  by (auto simp: runSJF_def temp_ok_def)

lemma runPriority_temp_ok:
  assumes "qsort_contract qs" and "repo_inv st" and "jobs_positive st" and "temp_ok st"
  shows "temp_ok (snd (runPriority qs st))"
  using sort_and_measure [OF assms(1,2,4) pending_consistent(2) [OF assms(2,3)]] assms(4)
  by (auto simp: runPriority_def temp_ok_def)

lemma temp_ok_addJob: "temp_ok st \<Longrightarrow> temp_ok (snd (addJob pages prio st))"
  by (auto simp: temp_ok_def addJob_def Let_def)

lemma temp_ok_initial: "temp_ok initial_state"
  by (simp add: temp_ok_def initial_state_def)

lemma exec_invs:
  assumes "qsort_contract qs" and "repo_inv st" and "jobs_positive st" and "temp_ok st"
  shows "jobs_positive (snd (exec qs c st))" and "temp_ok (snd (exec qs c st))"
proof -
  show "jobs_positive (snd (exec qs c st))"
  proof (cases c)
    case (AddJob pages prio)
    then show ?thesis using jobs_positive_addJob [OF assms(2,3)] by (simp add: snd_exec)
  next
    case RunSJF
    then show ?thesis using assms(3) by (simp add: snd_exec jobs_positive_cong [OF runSJF_frame(1,2)])
  next
    case RunPriority
    then show ?thesis using assms(3) by (simp add: snd_exec jobs_positive_cong [OF runPriority_frame(1,2)])
  qed (simp_all add: snd_exec assms(3))
  show "temp_ok (snd (exec qs c st))"
  proof (cases c)
    case (AddJob pages prio)
    then show ?thesis using temp_ok_addJob [OF assms(4)] by (simp add: snd_exec)
  next
    case RunSJF
    then show ?thesis using runSJF_temp_ok [OF assms] by (simp add: snd_exec)
  next
    case RunPriority
    then show ?thesis using runPriority_temp_ok [OF assms] by (simp add: snd_exec)
  qed (simp_all add: snd_exec assms(4))
qed

lemma session_invs:
  assumes "qsort_contract qs"
  shows "repo_inv st \<Longrightarrow> jobs_positive st \<Longrightarrow> temp_ok st \<Longrightarrow>
     jobs_positive (snd (session qs cmds st)) \<and> temp_ok (snd (session qs cmds st))"
proof (induction cmds arbitrary: st)
  case Nil
  then show ?case by simp
next
  case (Cons c cs)
  have "repo_inv (snd (exec qs c st))" using Cons.prems(1) by (rule exec_repo_inv)
  moreover note exec_invs [OF assms Cons.prems, of c]
  ultimately show ?case using Cons.IH by (simp only: session_Cons)
qed

lemma reachable_invs:
  assumes "qsort_contract qs"
  shows "repo_inv (snd (session qs cmds initial_state))"
    and "jobs_positive (snd (session qs cmds initial_state))"
    and "temp_ok (snd (session qs cmds initial_state))"
  using session_repo_inv [OF repo_inv_initial]
    session_invs [OF assms repo_inv_initial jobs_positive_initial temp_ok_initial]
  by simp_all

subsection \<open>The order of the sorted simulations\<close>

lemma sorted_mset_unique:
  fixes xs ys :: "int list"
  assumes "mset xs = mset ys" and "sorted xs" and "sorted ys"
  shows "xs = ys"
proof -
  have "sort ys = xs" using assms(1,2) by (rule properties_for_sort)
  moreover have "sort ys = ys" using assms(3) by (rule sorted_sort_id)
  ultimately show ?thesis by simp
qed

lemma pending_ids_sorted:
  assumes "repo_inv st"
  shows "sorted (map (\<lambda>j. sint (job_id j)) (pending st))"
    and "inj_on (\<lambda>j. sint (job_id j)) (set (pending st))"
proof -
  have d: "distinct (map int [1 ..< Suc (length (pending st))])"
    by (simp add: distinct_map del: upt_Suc)
  have s: "sorted (map int [1 ..< Suc (length (pending st))])"
    by (simp add: sorted_map sorted_wrt_mono_rel [OF _ sorted_wrt_upt] del: upt_Suc)
  show "sorted (map (\<lambda>j. sint (job_id j)) (pending st))"
    using s by (simp only: pending_ids [OF assms])
  have "distinct (map (\<lambda>j. sint (job_id j)) (pending st))"
    using d by (simp only: pending_ids [OF assms])
  then show "inj_on (\<lambda>j. sint (job_id j)) (set (pending st))"
    by (simp add: distinct_map)
qed

text \<open>
  The order \<^verbatim>\<open>comparePriority\<close> puts on the jobs of the repository leaves \<^verbatim>\<open>qsort\<close> no
  choice: jobs of one priority come out in the order of their ids.
\<close>

lemma priority_sorted:
  assumes c: "qsort_contract qs" and inv: "repo_inv st" and pos: "jobs_positive st"
  shows "sorted (map (\<lambda>j. sint (priority j)) (qs comparePriority (pending st)))"
    and "filter (\<lambda>j. priority j = p) (qs comparePriority (pending st)) =
         filter (\<lambda>j. priority j = p) (pending st)"
proof -
  let ?js = "pending st"
  let ?out = "qs comparePriority ?js"
  let ?k = "\<lambda>j. sint (job_id j)"
  let ?F = "filter (\<lambda>j. priority j = p)"
  note cons = pending_consistent(2) [OF inv pos]
  note q = qsort_contractD [OF c cons]
  have cmp: "sint (comparePriority a b) =
     (if sint (priority a) \<noteq> sint (priority b) then sint (priority a) - sint (priority b)
      else sint (job_id a) - sint (job_id b))"
    if "a \<in> set ?out" and "b \<in> set ?out" for a b
    using that pending_job_bounds(1,3) [OF inv pos] q(4)
    by (intro comparePriority_sint) (simp_all add: less_imp_le)
  have le_prio: "sint (priority a) \<le> sint (priority b)"
    if "a \<in> set ?out" and "b \<in> set ?out" and "comparePriority a b \<le>s 0" for a b
    using that cmp [of a b] by (simp add: word_sle_eq split: if_splits)
  have le_id: "sint (job_id a) \<le> sint (job_id b)"
    if "a \<in> set ?out" and "b \<in> set ?out" and "comparePriority a b \<le>s 0"
      and "priority a = priority b" for a b
    using that cmp [of a b] by (simp add: word_sle_eq)
  show "sorted (map (\<lambda>j. sint (priority j)) ?out)"
    unfolding sorted_map using q(2) by (rule sorted_wrt_mono_rel [rotated]) (rule le_prio)
  have "sorted_wrt (\<lambda>a b. comparePriority a b \<le>s 0) (?F ?out)"
    using q(2) by (rule sorted_wrt_filter)
  then have s1: "sorted (map ?k (?F ?out))"
    unfolding sorted_map by (rule sorted_wrt_mono_rel [rotated]) (auto intro: le_id)
  have "sorted_wrt (\<lambda>a b. ?k a \<le> ?k b) (?F ?js)"
    using pending_ids_sorted(1) [OF inv] unfolding sorted_map by (rule sorted_wrt_filter)
  then have s2: "sorted (map ?k (?F ?js))" by (simp add: sorted_map)
  have "mset (?F ?out) = mset (?F ?js)" using q(1) by simp
  then have "mset (map ?k (?F ?out)) = mset (map ?k (?F ?js))" by (simp only: mset_map)
  then have eq: "map ?k (?F ?out) = map ?k (?F ?js)" using s1 s2 by (rule sorted_mset_unique)
  have "inj_on ?k (set (?F ?out) \<union> set (?F ?js))"
    using pending_ids_sorted(2) [OF inv] q(4) by (auto intro: inj_on_subset)
  then show "?F ?out = ?F ?js" using eq by (simp only: inj_on_map_eq_map)
qed

lemma sjf_sorted:
  assumes c: "qsort_contract qs" and inv: "repo_inv st" and pos: "jobs_positive st"
  shows "sorted (map (\<lambda>j. sint (page_count j)) (qs compareSJF (pending st)))"
proof -
  let ?out = "qs compareSJF (pending st)"
  note cons = pending_consistent(1) [OF inv pos]
  note q = qsort_contractD [OF c cons]
  have "sint (page_count a) \<le> sint (page_count b)"
    if "a \<in> set ?out" and "b \<in> set ?out" and "compareSJF a b \<le>s 0" for a b
  proof -
    have "sint (compareSJF a b) = sint (page_count a) - sint (page_count b)"
      using that(1,2) pending_job_bounds(2) [OF inv pos] q(4)
      by (simp add: compareSJF_def sint_sub_nonneg less_imp_le)
    then show ?thesis using that(3) by (simp add: word_sle_eq)
  qed
  then show ?thesis
    unfolding sorted_map using q(2) by (intro sorted_wrt_mono_rel [OF _ q(2)]) 
qed

lemma pending_ids_strict:
  assumes "repo_inv st"
  shows "sorted_wrt (\<lambda>a b. sint (job_id a) < sint (job_id b)) (pending st)"
proof -
  have "sorted_wrt (<) (map int [1 ..< Suc (length (pending st))])"
    by (simp add: sorted_wrt_map del: upt_Suc)
  then have "sorted_wrt (<) (map (\<lambda>j. sint (job_id j)) (pending st))"
    by (simp only: pending_ids [OF assms])
  then show ?thesis by (simp add: sorted_wrt_map)
qed

subsection \<open>Selection sort keeps the contract of \<^verbatim>\<open>qsort\<close>\<close>

lemma cmp_consistent_facts:
  assumes "cmp_consistent cmp A" and "a \<in> A" and "b \<in> A"
  shows "cmp a a \<le>s 0"
    and "\<not> 0 <s cmp a b \<Longrightarrow> cmp a b \<le>s 0"
    and "0 <s cmp a b \<Longrightarrow> cmp b a \<le>s 0"
    and "c \<in> A \<Longrightarrow> cmp a b \<le>s 0 \<Longrightarrow> cmp b c \<le>s 0 \<Longrightarrow> cmp a c \<le>s 0"
proof -
  have anti: "cmp x y <s 0 \<longleftrightarrow> 0 <s cmp y x" if "x \<in> A" "y \<in> A" for x y
    using assms(1) that by (simp add: cmp_consistent_def)
  show "cmp a a \<le>s 0" using anti [OF assms(2,2)] by (auto simp: word_sle_eq word_sless_alt)
  show "\<not> 0 <s cmp a b \<Longrightarrow> cmp a b \<le>s 0" by (simp add: word_sle_eq word_sless_alt)
  show "0 <s cmp a b \<Longrightarrow> cmp b a \<le>s 0"
    using anti [OF assms(3,2)] by (simp add: word_sle_eq word_sless_alt)
  show "c \<in> A \<Longrightarrow> cmp a b \<le>s 0 \<Longrightarrow> cmp b c \<le>s 0 \<Longrightarrow> cmp a c \<le>s 0"
    using assms unfolding cmp_consistent_def by blast
qed

lemma max_pos_le: "max_pos cmp xs p \<le> p"
  by (induction p) (auto simp: Let_def le_SucI)

lemma max_pos_greatest:
  assumes "cmp_consistent cmp (set xs)"
  shows "p < length xs \<Longrightarrow> i \<le> p \<Longrightarrow> cmp (xs ! i) (xs ! max_pos cmp xs p) \<le>s 0"
proof (induction p arbitrary: i)
  case 0
  then show ?case using cmp_consistent_facts(1) [OF assms, of "xs ! 0" "xs ! 0"] by simp
next
  case (Suc p)
  let ?m = "max_pos cmp xs p"
  have mp: "?m < length xs" using max_pos_le [of cmp xs p] Suc.prems(1) by simp
  have in_m: "xs ! ?m \<in> set xs" using mp by simp
  have in_s: "xs ! Suc p \<in> set xs" using Suc.prems(1) by simp
  have in_i: "xs ! i \<in> set xs" using Suc.prems by simp
  show ?case
  proof (cases "0 <s cmp (xs ! Suc p) (xs ! ?m)")
    case True
    then have new: "max_pos cmp xs (Suc p) = Suc p" by simp
    show ?thesis
    proof (cases "i = Suc p")
      case True
      then show ?thesis using new cmp_consistent_facts(1) [OF assms in_s in_s] by simp
    next
      case False
      then have "cmp (xs ! i) (xs ! ?m) \<le>s 0" using Suc.IH [of i] Suc.prems by simp
      moreover have "cmp (xs ! ?m) (xs ! Suc p) \<le>s 0"
        using cmp_consistent_facts(3) [OF assms in_s in_m] True by simp
      ultimately show ?thesis
        using new cmp_consistent_facts(4) [OF assms in_i in_m in_s] by simp
    qed
  next
    case False
    then have old: "max_pos cmp xs (Suc p) = ?m" by simp
    show ?thesis
    proof (cases "i = Suc p")
      case True
      then show ?thesis using old False cmp_consistent_facts(2) [OF assms in_s in_m] by simp
    next
      case False
      then show ?thesis using old Suc.IH [of i] Suc.prems by simp
    qed
  qed
qed

declare max_pos.simps [simp del]

lemma selection_pass_correct:
  "hi < length xs \<Longrightarrow> cmp_consistent cmp (set xs) \<Longrightarrow>
   length (selection_pass cmp hi xs) = length xs \<and>
   mset (take (Suc hi) (selection_pass cmp hi xs)) = mset (take (Suc hi) xs) \<and>
   drop (Suc hi) (selection_pass cmp hi xs) = drop (Suc hi) xs \<and>
   sorted_wrt (\<lambda>a b. cmp a b \<le>s 0) (take (Suc hi) (selection_pass cmp hi xs))"
proof (induction hi arbitrary: xs)
  case 0
  then show ?case by (cases xs) simp_all
next
  case (Suc hi)
  let ?m = "max_pos cmp xs (Suc hi)"
  let ?xs' = "xs[?m := xs ! Suc hi, Suc hi := xs ! ?m]"
  let ?ys = "selection_pass cmp hi ?xs'"
  let ?le = "\<lambda>a b. cmp a b \<le>s 0"
  have m: "?m \<le> Suc hi" by (rule max_pos_le)
  then have ml: "?m < length xs" using Suc.prems(1) by simp
  have perm: "mset ?xs' = mset xs" using Suc.prems(1) ml by (rule mset_swap)
  then have set': "set ?xs' = set xs" by (rule mset_eq_setD)
  have len': "length ?xs' = length xs" by simp
  have IH: "length ?ys = length xs"
    "mset (take (Suc hi) ?ys) = mset (take (Suc hi) ?xs')"
    "drop (Suc hi) ?ys = drop (Suc hi) ?xs'"
    "sorted_wrt ?le (take (Suc hi) ?ys)"
    using Suc.IH [of ?xs'] Suc.prems set' by simp_all
  have top': "?xs' ! Suc hi = xs ! ?m" using Suc.prems(1) by simp
  have "?ys ! Suc hi = (drop (Suc hi) ?ys) ! 0" using IH(1) Suc.prems(1) by simp
  also have "\<dots> = ?xs' ! Suc hi" using Suc.prems(1) by (simp only: IH(3)) simp
  finally have top: "?ys ! Suc hi = xs ! ?m" using top' by simp
  have tk: "take (Suc (Suc hi)) ?ys = take (Suc hi) ?ys @ [xs ! ?m]"
    using IH(1) Suc.prems(1) top by (simp add: take_Suc_conv_app_nth)
  have below: "?le y (xs ! ?m)" if "y \<in> set (take (Suc hi) ?ys)" for y
  proof -
    have "y \<in> set (take (Suc hi) ?xs')" using that IH(2) by (metis set_mset_mset)
    then obtain i where i: "i < Suc hi" "y = ?xs' ! i"
      using Suc.prems(1) by (auto simp: in_set_conv_nth)
    have "\<exists>k \<le> Suc hi. y = xs ! k"
    proof (cases "i = ?m")
      case True
      then show ?thesis using i ml by auto
    next
      case False
      then show ?thesis using i Suc.prems(1) by (intro exI [of _ i]) simp
    qed
    then show ?thesis using max_pos_greatest [OF Suc.prems(2,1)] by blast
  qed
  have srt: "sorted_wrt ?le (take (Suc (Suc hi)) ?ys)"
    using IH(4) below by (simp add: tk sorted_wrt_append)
  have "mset (take (Suc (Suc hi)) ?xs') = mset (take (Suc (Suc hi)) xs)"
  proof -
    have "take (Suc (Suc hi)) ?xs' =
        (take (Suc (Suc hi)) xs)[?m := take (Suc (Suc hi)) xs ! Suc hi,
                                 Suc hi := take (Suc (Suc hi)) xs ! ?m]"
      using m by (simp add: take_update_swap)
    moreover have "mset \<dots> = mset (take (Suc (Suc hi)) xs)"
      using m Suc.prems(1) by (intro mset_swap) simp_all
    ultimately show ?thesis by simp
  qed
  moreover have "mset (take (Suc (Suc hi)) ?ys) = mset (take (Suc (Suc hi)) ?xs')"
  proof -
    have "take (Suc (Suc hi)) ?xs' = take (Suc hi) ?xs' @ [xs ! ?m]"
      using Suc.prems(1) top' by (simp add: take_Suc_conv_app_nth)
    then show ?thesis using IH(2) by (simp add: tk)
  qed
  ultimately have ms: "mset (take (Suc (Suc hi)) ?ys) = mset (take (Suc (Suc hi)) xs)" by simp
  have "drop (Suc (Suc hi)) ?ys = drop (Suc 0) (drop (Suc hi) ?ys)" by simp
  also have "\<dots> = drop (Suc 0) (drop (Suc hi) ?xs')" by (simp only: IH(3))
  also have "\<dots> = drop (Suc (Suc hi)) xs" using m by simp
  finally have dr: "drop (Suc (Suc hi)) ?ys = drop (Suc (Suc hi)) xs" .
  have "selection_pass cmp (Suc hi) xs = ?ys" by (simp add: Let_def)
  then show ?case using IH(1) ms dr srt by simp
qed

lemma selection_qsort_contract: "qsort_contract selection_qsort"
  unfolding qsort_contract_def
proof (intro allI impI)
  fix cmp xs
  assume cons: "cmp_consistent cmp (set xs)"
  show "mset (selection_qsort cmp xs) = mset xs \<and>
        sorted_wrt (\<lambda>a b. cmp a b \<le>s 0) (selection_qsort cmp xs)"
  proof (cases xs)
    case Nil
    then show ?thesis by (simp add: selection_qsort_def)
  next
    case (Cons x xs')
    then have lt: "length xs - 1 < length xs" and s: "Suc (length xs - 1) = length xs" by simp_all
    note r = selection_pass_correct [OF lt cons, unfolded s]
    have "take (length xs) (selection_pass cmp (length xs - 1) xs) = selection_pass cmp (length xs - 1) xs"
      using r by simp
    then show ?thesis using r by (simp add: selection_qsort_def)
  qed
qed

subsection \<open>Sums without overflow\<close>

text \<open>
  Where the page counts are not negative and their sum is below \<open>2\<^sup>3\<^sup>1\<close>, no addition of the
  loop wraps around: read as integers, the wait time of line \<open>k\<close> is the sum of the page
  counts of the jobs before it, and its turnaround time the sum up to and including its own.
\<close>

lemma sint_sum_list:
  fixes xs :: "int32 list"
  assumes "\<forall>x\<in>set xs. 0 \<le> sint x" and "sum_list (map sint xs) < 2 ^ 31"
  shows "sint (sum_list xs) = sum_list (map sint xs)"
  using assms
proof (induction xs)
  case Nil
  then show ?case by simp
next
  case (Cons x xs)
  have nn: "0 \<le> sum_list (map sint xs)" using Cons.prems(1) by (intro sum_list_nonneg) auto
  have x0: "0 \<le> sint x" using Cons.prems(1) by simp
  have IH: "sint (sum_list xs) = sum_list (map sint xs)"
    using Cons.prems x0 by (intro Cons.IH) simp_all
  have "signed_take_bit 31 (sint x + sum_list (map sint xs)) = sint x + sum_list (map sint xs)"
    using Cons.prems(2) nn x0 by (intro signed_take_bit_int_eq_self) simp_all
  then show ?case by (simp add: sint_word_ariths IH)
qed

lemma sum_list_take_le:
  fixes xs :: "int list"
  assumes "\<forall>x\<in>set xs. 0 \<le> x"
  shows "sum_list (take k xs) \<le> sum_list xs"
proof -
  have "sum_list (take k xs) + sum_list (drop k xs) = sum_list xs"
    by (simp flip: sum_list_append)
  moreover have "0 \<le> sum_list (drop k xs)"
    using assms by (intro sum_list_nonneg) (auto dest: in_set_dropD)
  ultimately show ?thesis by simp
qed

lemma timeline_no_overflow:
  assumes nn: "\<forall>j\<in>set jobs. 0 \<le> sint (page_count j)"
    and tot: "sum_list (map (\<lambda>j. sint (page_count j)) jobs) < 2 ^ 31"
    and k: "k < length jobs"
  shows "sint (wait_time (timeline jobs 0 ! k)) =
           sum_list (map (\<lambda>j. sint (page_count j)) (take k jobs))"
    and "sint (turnaround_time (timeline jobs 0 ! k)) =
           sum_list (map (\<lambda>j. sint (page_count j)) (take (Suc k) jobs))"
proof -
  let ?f = "\<lambda>j. sint (page_count j)"
  have pre: "sint (sum_list (map page_count (take n jobs))) = sum_list (map ?f (take n jobs))" for n
  proof -
    have "sum_list (take n (map ?f jobs)) \<le> sum_list (map ?f jobs)"
      using nn by (intro sum_list_take_le) simp
    then have "sum_list (map sint (map page_count (take n jobs))) < 2 ^ 31"
      using tot by (simp add: take_map comp_def)
    moreover have "\<forall>x\<in>set (map page_count (take n jobs)). 0 \<le> sint x"
      using nn by (auto dest: in_set_takeD)
    ultimately have "sint (sum_list (map page_count (take n jobs))) =
        sum_list (map sint (map page_count (take n jobs)))"
      by (intro sint_sum_list)
    then show ?thesis by (simp add: comp_def)
  qed
  show "sint (wait_time (timeline jobs 0 ! k)) = sum_list (map ?f (take k jobs))"
    using pre [of k] by (simp add: timeline_nth [OF k])
  have "take (Suc k) jobs = take k jobs @ [jobs ! k]" using k by (rule take_Suc_conv_app_nth)
  then have "sum_list (map page_count (take (Suc k) jobs)) =
      sum_list (map page_count (take k jobs)) + page_count (jobs ! k)" by simp
  then show "sint (turnaround_time (timeline jobs 0 ! k)) = sum_list (map ?f (take (Suc k) jobs))"
    using pre [of "Suc k"] by (simp add: timeline_nth [OF k])
qed

section \<open>Properties\<close>

text \<open>
  C1. \<^verbatim>\<open>calculateMetrics\<close> on the first \<open>cnt > 0\<close> cells of \<open>queue\<close>, where no page count
  is negative and the page counts sum to less than \<open>2\<^sup>3\<^sup>1\<close>, prints one line for each cell,
  in order, and read as integers the wait time of the first line is 0, the wait time of
  line \<open>k > 0\<close> is the wait time of line \<open>k - 1\<close> plus the page count of job \<open>k - 1\<close>, and
  the turnaround time of every line is its wait time plus the page count of its job.
  Without the bound on the sum the integer equations fail, since the clock is a C
  \<^verbatim>\<open>int\<close>: two accepted jobs of 2000000000 pages give the second line the wait time
  2000000000 and the turnaround time -294967296.
\<close>

theorem calculateMetrics_times_no_overflow:
  assumes "0 <s cnt" and "nat (sint cnt) \<le> length queue"
    and "\<forall>j\<in>set (take (nat (sint cnt)) queue). 0 \<le> sint (page_count j)"
    and "sum_list (map (\<lambda>j. sint (page_count j)) (take (nat (sint cnt)) queue)) < 2 ^ 31"
  shows "\<exists>rows. calculateMetrics queue cnt = Inr rows \<and> length rows = nat (sint cnt) \<and>
     sint (wait_time (rows ! 0)) = 0 \<and>
     (\<forall>k. 0 < k \<and> k < nat (sint cnt) \<longrightarrow>
        sint (wait_time (rows ! k)) =
          sint (wait_time (rows ! (k - 1))) + sint (page_count (queue ! (k - 1)))) \<and>
     (\<forall>k < nat (sint cnt).
        row_job (rows ! k) = queue ! k \<and>
        sint (turnaround_time (rows ! k)) =
          sint (wait_time (rows ! k)) + sint (page_count (queue ! k)))"
proof -
  let ?n = "nat (sint cnt)"
  let ?js = "take ?n queue"
  let ?rows = "timeline ?js 0"
  let ?f = "\<lambda>j. sint (page_count j)"
  have len: "length ?js = ?n" using assms(2) by simp
  have pos: "0 < ?n" using assms(1) by (simp add: word_sless_alt)
  have nth: "?js ! k = queue ! k" if "k < ?n" for k using that by simp
  have w: "sint (wait_time (?rows ! k)) = sum_list (map ?f (take k ?js))" if "k < ?n" for k
    using timeline_no_overflow(1) [OF assms(3,4), of k] that len by simp
  have t: "sint (turnaround_time (?rows ! k)) = sum_list (map ?f (take (Suc k) ?js))"
    if "k < ?n" for k
    using timeline_no_overflow(2) [OF assms(3,4), of k] that len by simp
  have step: "sum_list (map ?f (take (Suc k) ?js)) =
      sum_list (map ?f (take k ?js)) + sint (page_count (queue ! k))" if "k < ?n" for k
  proof -
    have "take (Suc k) ?js = take k ?js @ [?js ! k]"
      using that len by (intro take_Suc_conv_app_nth) simp
    then show ?thesis using nth [OF that] by simp
  qed
  have r: "calculateMetrics queue cnt = Inr ?rows"
    using assms(2) by (rule calculateMetrics_timeline)
  have l: "length ?rows = ?n" using len by (simp add: length_timeline)
  have w0: "sint (wait_time (?rows ! 0)) = 0" using w [OF pos] by simp
  have ws: "\<forall>k. 0 < k \<and> k < ?n \<longrightarrow>
        sint (wait_time (?rows ! k)) =
          sint (wait_time (?rows ! (k - 1))) + sint (page_count (queue ! (k - 1)))"
  proof (intro allI impI)
    fix k assume k: "0 < k \<and> k < ?n"
    then obtain k' where k': "k = Suc k'" using gr0_implies_Suc by blast
    then have lt: "k' < ?n" using k by simp
    show "sint (wait_time (?rows ! k)) =
          sint (wait_time (?rows ! (k - 1))) + sint (page_count (queue ! (k - 1)))"
      using k k' w [of k] w [OF lt] step [OF lt] by simp
  qed
  have ts: "\<forall>k < ?n. row_job (?rows ! k) = queue ! k \<and>
        sint (turnaround_time (?rows ! k)) =
          sint (wait_time (?rows ! k)) + sint (page_count (queue ! k))"
  proof (intro allI impI)
    fix k assume k: "k < ?n"
    have "row_job (?rows ! k) = queue ! k"
      using k len nth [OF k] timeline_nth [of k ?js 0] by simp
    then show "row_job (?rows ! k) = queue ! k \<and>
        sint (turnaround_time (?rows ! k)) =
          sint (wait_time (?rows ! k)) + sint (page_count (queue ! k))"
      using t [OF k] w [OF k] step [OF k] by simp
  qed
  show ?thesis by (intro exI [of _ ?rows] conjI r l w0 ws ts)
qed

theorem calculateMetrics_times_no_overflow_witness:
  "(0::int32) <s 3 \<and>
   calculateMetrics
     [\<lparr>job_id = 1, page_count = 10, priority = 2\<rparr>,
      \<lparr>job_id = 2, page_count = 5, priority = 1\<rparr>,
      \<lparr>job_id = 3, page_count = 20, priority = 3\<rparr>] 3 =
   Inr [\<lparr>row_job = \<lparr>job_id = 1, page_count = 10, priority = 2\<rparr>, wait_time = 0, turnaround_time = 10\<rparr>,
        \<lparr>row_job = \<lparr>job_id = 2, page_count = 5, priority = 1\<rparr>, wait_time = 10, turnaround_time = 15\<rparr>,
        \<lparr>row_job = \<lparr>job_id = 3, page_count = 20, priority = 3\<rparr>, wait_time = 15, turnaround_time = 35\<rparr>] \<and>
   (\<exists>rows. calculateMetrics
     [\<lparr>job_id = 1, page_count = 10, priority = 2\<rparr>,
      \<lparr>job_id = 2, page_count = 5, priority = 1\<rparr>,
      \<lparr>job_id = 3, page_count = 20, priority = 3\<rparr>] 3 = Inr rows \<and>
      sint (wait_time (rows ! 0)) = 0 \<and>
      sint (wait_time (rows ! 1)) = sint (wait_time (rows ! 0)) + 10 \<and>
      sint (wait_time (rows ! 2)) = sint (wait_time (rows ! 1)) + 5 \<and>
      sint (turnaround_time (rows ! 2)) = sint (wait_time (rows ! 2)) + 20)"
proof -
  let ?q = "[\<lparr>job_id = 1, page_count = 10, priority = 2\<rparr>,
      \<lparr>job_id = 2, page_count = 5, priority = 1\<rparr>,
      \<lparr>job_id = 3, page_count = 20, priority = 3\<rparr>]"
  have h1: "(0::int32) <s 3" by (simp add: word_sless_alt)
  have h2: "nat (sint (3::int32)) \<le> length ?q" by simp
  have h3: "\<forall>j\<in>set (take (nat (sint (3::int32))) ?q). 0 \<le> sint (page_count j)" by simp
  have h4: "sum_list (map (\<lambda>j. sint (page_count j)) (take (nat (sint (3::int32))) ?q)) < 2 ^ 31"
    by simp
  have ev: "calculateMetrics ?q 3 =
   Inr [\<lparr>row_job = \<lparr>job_id = 1, page_count = 10, priority = 2\<rparr>, wait_time = 0, turnaround_time = 10\<rparr>,
        \<lparr>row_job = \<lparr>job_id = 2, page_count = 5, priority = 1\<rparr>, wait_time = 10, turnaround_time = 15\<rparr>,
        \<lparr>row_job = \<lparr>job_id = 3, page_count = 20, priority = 3\<rparr>, wait_time = 15, turnaround_time = 35\<rparr>]"
    by code_simp
  from calculateMetrics_times_no_overflow [OF h1 h2 h3 h4] obtain rows where r: "calculateMetrics ?q 3 = Inr rows"
    and w0: "sint (wait_time (rows ! 0)) = 0"
    and step: "\<forall>k. 0 < k \<and> k < nat (sint (3::int32)) \<longrightarrow>
        sint (wait_time (rows ! k)) =
          sint (wait_time (rows ! (k - 1))) + sint (page_count (?q ! (k - 1)))"
    and ta: "\<forall>k < nat (sint (3::int32)).
        row_job (rows ! k) = ?q ! k \<and>
        sint (turnaround_time (rows ! k)) =
          sint (wait_time (rows ! k)) + sint (page_count (?q ! k))"
    by blast
  have s1: "sint (wait_time (rows ! 1)) = sint (wait_time (rows ! 0)) + 10"
    using step [rule_format, of 1] by simp
  have s2: "sint (wait_time (rows ! 2)) = sint (wait_time (rows ! 1)) + 5"
    using step [rule_format, of 2] by simp
  have t2: "sint (turnaround_time (rows ! 2)) = sint (wait_time (rows ! 2)) + 20"
    using ta [rule_format, of 2] by simp
  have ex: "\<exists>rows. calculateMetrics ?q 3 = Inr rows \<and>
      sint (wait_time (rows ! 0)) = 0 \<and>
      sint (wait_time (rows ! 1)) = sint (wait_time (rows ! 0)) + 10 \<and>
      sint (wait_time (rows ! 2)) = sint (wait_time (rows ! 1)) + 5 \<and>
      sint (turnaround_time (rows ! 2)) = sint (wait_time (rows ! 2)) + 20"
    by (intro exI [of _ rows] conjI r w0 s1 s2 t2)
  show ?thesis by (intro conjI h1 ev ex)
qed

theorem calculateMetrics_times_counterexample:
  "fst (runFCFS (snd (session selection_qsort
      [AddJob 2000000000 1, AddJob 2000000000 1] initial_state))) =
     Inr [\<lparr>row_job = \<lparr>job_id = 1, page_count = 2000000000, priority = 1\<rparr>,
           wait_time = 0, turnaround_time = 2000000000\<rparr>,
          \<lparr>row_job = \<lparr>job_id = 2, page_count = 2000000000, priority = 1\<rparr>,
           wait_time = 2000000000, turnaround_time = 4000000000\<rparr>] \<and>
   calculateMetrics
     [\<lparr>job_id = 1, page_count = 2000000000, priority = 1\<rparr>,
      \<lparr>job_id = 2, page_count = 2000000000, priority = 1\<rparr>] 2 =
     Inr [\<lparr>row_job = \<lparr>job_id = 1, page_count = 2000000000, priority = 1\<rparr>,
           wait_time = 0, turnaround_time = 2000000000\<rparr>,
          \<lparr>row_job = \<lparr>job_id = 2, page_count = 2000000000, priority = 1\<rparr>,
           wait_time = 2000000000, turnaround_time = 4000000000\<rparr>] \<and>
   sint (4000000000 :: int32) = - 294967296 \<and>
   sint (2000000000 :: int32) + sint (2000000000 :: int32) = 4000000000 \<and>
   sint (4000000000 :: int32) \<noteq> sint (2000000000 :: int32) + sint (2000000000 :: int32)"
proof -
  have a: "fst (runFCFS (snd (session selection_qsort
      [AddJob 2000000000 1, AddJob 2000000000 1] initial_state))) =
     Inr [\<lparr>row_job = \<lparr>job_id = 1, page_count = 2000000000, priority = 1\<rparr>,
           wait_time = 0, turnaround_time = 2000000000\<rparr>,
          \<lparr>row_job = \<lparr>job_id = 2, page_count = 2000000000, priority = 1\<rparr>,
           wait_time = 2000000000, turnaround_time = 4000000000\<rparr>]"
    by code_simp
  have b: "calculateMetrics
     [\<lparr>job_id = 1, page_count = 2000000000, priority = 1\<rparr>,
      \<lparr>job_id = 2, page_count = 2000000000, priority = 1\<rparr>] 2 =
     Inr [\<lparr>row_job = \<lparr>job_id = 1, page_count = 2000000000, priority = 1\<rparr>,
           wait_time = 0, turnaround_time = 2000000000\<rparr>,
          \<lparr>row_job = \<lparr>job_id = 2, page_count = 2000000000, priority = 1\<rparr>,
           wait_time = 2000000000, turnaround_time = 4000000000\<rparr>]"
    by code_simp
  have c: "sint (4000000000 :: int32) = - 294967296" by simp
  have d: "sint (2000000000 :: int32) + sint (2000000000 :: int32) = 4000000000" by simp
  have e: "sint (4000000000 :: int32) \<noteq> sint (2000000000 :: int32) + sint (2000000000 :: int32)"
    by simp
  show ?thesis by (intro conjI a b c d e)
qed

text \<open>
  C2. The order \<^verbatim>\<open>runSJF\<close> serves the jobs in is non-decreasing in page count with every
  \<^verbatim>\<open>qsort\<close> that keeps the contract (lemma \<open>sjf_sorted\<close>), but jobs of equal page count
  need not keep their submission order: \<^verbatim>\<open>compareSJF\<close> returns 0 for them, where
  \<^verbatim>\<open>comparePriority\<close> goes on to compare the ids, and the contract leaves the order of
  cells that compare equal open. With \<open>selection_qsort\<close>, which keeps the contract (lemma
  \<open>selection_qsort_contract\<close>), two jobs of 5 pages submitted one after the other are served
  in the order 2, 1.
\<close>

theorem runSJF_ties_reordered:
  "fst (runSJF selection_qsort (snd (session selection_qsort [AddJob 5 1, AddJob 5 1] initial_state))) =
     Inr [\<lparr>row_job = \<lparr>job_id = 2, page_count = 5, priority = 1\<rparr>, wait_time = 0, turnaround_time = 5\<rparr>,
          \<lparr>row_job = \<lparr>job_id = 1, page_count = 5, priority = 1\<rparr>, wait_time = 5, turnaround_time = 10\<rparr>]"
  by code_simp

text \<open>
  C3. In every state a session reaches, with every \<^verbatim>\<open>qsort\<close> that keeps the contract,
  \<^verbatim>\<open>runPriority\<close> fails when the repository is empty and otherwise prints its lines in
  non-decreasing priority, and for every priority \<open>p\<close> the jobs of priority \<open>p\<close> come in the
  order they have in the repository, which is their submission order, with strictly
  ascending ids.
\<close>

theorem runPriority_order:
  assumes "qsort_contract qs" and "st = snd (session qs cmds initial_state)"
  shows "if job_count st = 0 then fst (runPriority qs st) = Inl EmptyQueueError
     else \<exists>rows. fst (runPriority qs st) = Inr rows \<and>
       sorted (map (\<lambda>r. sint (priority (row_job r))) rows) \<and>
       (\<forall>p. filter (\<lambda>j. priority j = p) (map row_job rows) =
            filter (\<lambda>j. priority j = p) (pending st)) \<and>
       (\<forall>p. sorted_wrt (<)
            (map (\<lambda>j. sint (job_id j)) (filter (\<lambda>j. priority j = p) (map row_job rows))))"
proof (cases "job_count st = 0")
  case True
  then show ?thesis by (simp add: runPriority_def)
next
  case False
  note i = reachable_invs [OF assms(1), of cmds, folded assms(2)]
  let ?rows = "timeline (qs comparePriority (pending st)) 0"
  have r: "fst (runPriority qs st) = Inr ?rows"
    using assms(1) i False by (rule runPriority_rows)
  have j: "map row_job ?rows = qs comparePriority (pending st)" by (rule map_row_job_timeline)
  have "map (\<lambda>r. sint (priority (row_job r))) ?rows = map (\<lambda>j. sint (priority j)) (map row_job ?rows)"
    by simp
  then have s: "sorted (map (\<lambda>r. sint (priority (row_job r))) ?rows)"
    using priority_sorted(1) [OF assms(1) i(1,2)] by (simp only: j)
  have f: "\<forall>p. filter (\<lambda>j. priority j = p) (map row_job ?rows) =
            filter (\<lambda>j. priority j = p) (pending st)"
    using priority_sorted(2) [OF assms(1) i(1,2)] by (simp only: j) simp
  have g: "\<forall>p. sorted_wrt (<)
       (map (\<lambda>j. sint (job_id j)) (filter (\<lambda>j. priority j = p) (map row_job ?rows)))"
  proof
    fix p
    have "sorted_wrt (\<lambda>a b. sint (job_id a) < sint (job_id b)) (filter (\<lambda>j. priority j = p) (pending st))"
      using pending_ids_strict [OF i(1)] by (rule sorted_wrt_filter)
    then show "sorted_wrt (<)
       (map (\<lambda>j. sint (job_id j)) (filter (\<lambda>j. priority j = p) (map row_job ?rows)))"
      by (simp only: f [rule_format] sorted_wrt_map)
  qed
  have "\<exists>rows. fst (runPriority qs st) = Inr rows \<and>
       sorted (map (\<lambda>r. sint (priority (row_job r))) rows) \<and>
       (\<forall>p. filter (\<lambda>j. priority j = p) (map row_job rows) =
            filter (\<lambda>j. priority j = p) (pending st)) \<and>
       (\<forall>p. sorted_wrt (<)
            (map (\<lambda>j. sint (job_id j)) (filter (\<lambda>j. priority j = p) (map row_job rows))))"
    by (intro exI [of _ ?rows] conjI r s f g)
  then show ?thesis using False by (simp only: if_False)
qed

theorem runPriority_order_witness:
  "qsort_contract selection_qsort \<and>
   job_count (snd (session selection_qsort [AddJob 10 2, AddJob 5 1, AddJob 20 2] initial_state)) \<noteq> 0 \<and>
   (\<exists>rows.
      fst (runPriority selection_qsort
        (snd (session selection_qsort [AddJob 10 2, AddJob 5 1, AddJob 20 2] initial_state))) = Inr rows \<and>
      map row_job rows =
        [\<lparr>job_id = 2, page_count = 5, priority = 1\<rparr>,
         \<lparr>job_id = 1, page_count = 10, priority = 2\<rparr>,
         \<lparr>job_id = 3, page_count = 20, priority = 2\<rparr>] \<and>
      sorted (map (\<lambda>r. sint (priority (row_job r))) rows) \<and>
      filter (\<lambda>j. priority j = 2) (map row_job rows) =
        filter (\<lambda>j. priority j = 2)
          (pending (snd (session selection_qsort [AddJob 10 2, AddJob 5 1, AddJob 20 2] initial_state))))"
proof -
  let ?S = "snd (session selection_qsort [AddJob 10 2, AddJob 5 1, AddJob 20 2] initial_state)"
  have nz: "job_count ?S \<noteq> 0" by code_simp
  have ev: "fst (runPriority selection_qsort ?S) =
     Inr [\<lparr>row_job = \<lparr>job_id = 2, page_count = 5, priority = 1\<rparr>, wait_time = 0, turnaround_time = 5\<rparr>,
          \<lparr>row_job = \<lparr>job_id = 1, page_count = 10, priority = 2\<rparr>, wait_time = 5, turnaround_time = 15\<rparr>,
          \<lparr>row_job = \<lparr>job_id = 3, page_count = 20, priority = 2\<rparr>, wait_time = 15, turnaround_time = 35\<rparr>]"
    by code_simp
  have "\<exists>rows. fst (runPriority selection_qsort ?S) = Inr rows \<and>
       sorted (map (\<lambda>r. sint (priority (row_job r))) rows) \<and>
       (\<forall>p. filter (\<lambda>j. priority j = p) (map row_job rows) =
            filter (\<lambda>j. priority j = p) (pending ?S)) \<and>
       (\<forall>p. sorted_wrt (<)
            (map (\<lambda>j. sint (job_id j)) (filter (\<lambda>j. priority j = p) (map row_job rows))))"
    using runPriority_order [OF selection_qsort_contract refl, of "[AddJob 10 2, AddJob 5 1, AddJob 20 2]"] nz
    by (simp only: if_False)
  then obtain rows where r: "fst (runPriority selection_qsort ?S) = Inr rows"
    and s: "sorted (map (\<lambda>r. sint (priority (row_job r))) rows)"
    and f: "filter (\<lambda>j. priority j = 2) (map row_job rows) =
            filter (\<lambda>j. priority j = 2) (pending ?S)"
    by blast
  have "Inr rows = fst (runPriority selection_qsort ?S)" using r by (rule sym)
  also note ev
  finally have "map row_job rows =
        [\<lparr>job_id = 2, page_count = 5, priority = 1\<rparr>,
         \<lparr>job_id = 1, page_count = 10, priority = 2\<rparr>,
         \<lparr>job_id = 3, page_count = 20, priority = 2\<rparr>]"
    by simp
  then show ?thesis using selection_qsort_contract nz r s f
    by (intro conjI exI [of _ rows]) assumption+
qed

text \<open>
  C4. In every session the accepted jobs get the ids 1, 2, 3, ... in the order they are
  accepted: strictly increasing from 1 with no gap, whatever refused submissions and
  simulations come in between. A submission with a non-positive page count or priority, or
  one made when the repository is full, is refused and leaves \<^verbatim>\<open>next_job_id\<close> as it was;
  and in a state a session reaches, a refused submission leaves the whole state as it was.
\<close>

theorem accepted_ids_sequential:
  "map (\<lambda>j. sint (job_id j)) (accepted (fst (session qs cmds initial_state))) =
     map int [1 ..< Suc (length (accepted (fst (session qs cmds initial_state))))] \<and>
   (pages \<le>s 0 \<or> prio \<le>s 0 \<or> MAX_JOBS \<le>s job_count st \<longrightarrow>
      (\<exists>e. fst (addJob pages prio st) = Inl e) \<and>
      next_job_id (snd (addJob pages prio st)) = next_job_id st) \<and>
   (\<forall>e. fst (addJob pages prio (snd (session qs cmds initial_state))) = Inl e \<longrightarrow>
      snd (addJob pages prio (snd (session qs cmds initial_state))) =
        snd (session qs cmds initial_state))"
proof -
  let ?S = "snd (session qs cmds initial_state)"
  have "snd (addJob pages prio ?S) = ?S" if "fst (addJob pages prio ?S) = Inl e" for e
  proof -
    have "repo_inv ?S" using repo_inv_initial by (rule session_repo_inv)
    then have "e \<noteq> OutOfBounds" using addJob_no_fault [of ?S pages prio] that by auto
    moreover have "addJob pages prio ?S = (Inl e, snd (addJob pages prio ?S))"
      using that by (simp add: prod_eq_iff)
    ultimately show ?thesis by (rule addJob_rejected [rotated])
  qed
  moreover
  have "map (\<lambda>j. sint (job_id j)) (accepted (fst (session qs cmds initial_state))) =
     map int [1 ..< Suc (length (accepted (fst (session qs cmds initial_state))))]"
    using session_accepted [OF repo_inv_initial, of qs cmds] by (simp add: initial_state_def)
  moreover have "pages \<le>s 0 \<or> prio \<le>s 0 \<or> MAX_JOBS \<le>s job_count st \<longrightarrow>
      (\<exists>e. fst (addJob pages prio st) = Inl e) \<and>
      next_job_id (snd (addJob pages prio st)) = next_job_id st"
    by (auto simp: addJob_def Let_def)
  ultimately show ?thesis by blast
qed

theorem accepted_ids_sequential_witness:
  "(0::int32) \<le>s 0 \<and>
   fst (addJob 0 1 initial_state) = Inl ValidationError \<and>
   next_job_id (snd (addJob 0 1 initial_state)) = 1 \<and>
   map (\<lambda>j. sint (job_id j))
     (accepted (fst (session selection_qsort
        [AddJob 10 2, AddJob 0 1, AddJob 5 1, RunSJF, AddJob 7 (- 1), AddJob 20 3]
        initial_state))) = [1, 2, 3]"
proof -
  have h: "(0::int32) \<le>s 0" by (simp add: word_sle_eq)
  have a: "accepted (fst (session selection_qsort
        [AddJob 10 2, AddJob 0 1, AddJob 5 1, RunSJF, AddJob 7 (- 1), AddJob 20 3]
        initial_state)) =
      [\<lparr>job_id = 1, page_count = 10, priority = 2\<rparr>,
       \<lparr>job_id = 2, page_count = 5, priority = 1\<rparr>,
       \<lparr>job_id = 3, page_count = 20, priority = 3\<rparr>]"
    by code_simp
  have n: "next_job_id initial_state = 1" by (simp add: initial_state_def)
  have e: "fst (addJob 0 1 initial_state) = Inl ValidationError" by code_simp
  from accepted_ids_sequential [of selection_qsort
        "[AddJob 10 2, AddJob 0 1, AddJob 5 1, RunSJF, AddJob 7 (- 1), AddJob 20 3]"
        0 1 initial_state] h a n e
  show ?thesis by simp
qed

text \<open>
  C5. With no job in the repository (\<^verbatim>\<open>job_count = 0\<close>) each of the three simulations
  fails with \<open>EmptyQueueError\<close>: no line of a report is produced, and the state is returned
  as it was.
\<close>

theorem simulation_empty_queue:
  "job_count st = 0 \<longrightarrow>
     runFCFS st = (Inl EmptyQueueError, st) \<and>
     runSJF qs st = (Inl EmptyQueueError, st) \<and>
     runPriority qs st = (Inl EmptyQueueError, st)"
  by (simp add: runFCFS_def runSJF_def runPriority_def)

theorem simulation_empty_queue_witness:
  "job_count initial_state = 0 \<and>
     runFCFS initial_state = (Inl EmptyQueueError, initial_state) \<and>
     runSJF selection_qsort initial_state = (Inl EmptyQueueError, initial_state) \<and>
     runPriority selection_qsort initial_state = (Inl EmptyQueueError, initial_state)"
  using simulation_empty_queue [of initial_state selection_qsort] by (simp add: initial_state_def)

text \<open>
  C6. In every state a session reaches, with every \<^verbatim>\<open>qsort\<close> that keeps the contract, each
  simulation on a non-empty repository prints one line for each job of the repository: the
  jobs \<^verbatim>\<open>runFCFS\<close> hands to \<^verbatim>\<open>calculateMetrics\<close> are the jobs of the repository in
  their order, those of \<^verbatim>\<open>runSJF\<close> and \<^verbatim>\<open>runPriority\<close> are the same multiset of jobs, and
  so the same multiset of ids. On an empty repository nothing is handed over.
\<close>

theorem simulation_order_permutation:
  assumes "qsort_contract qs" and "st = snd (session qs cmds initial_state)"
  shows "if job_count st = 0
     then fst (runFCFS st) = Inl EmptyQueueError \<and>
          fst (runSJF qs st) = Inl EmptyQueueError \<and>
          fst (runPriority qs st) = Inl EmptyQueueError
     else (\<exists>rows. fst (runFCFS st) = Inr rows \<and> map row_job rows = pending st) \<and>
          (\<exists>rows. fst (runSJF qs st) = Inr rows \<and>
             mset (map row_job rows) = mset (pending st) \<and>
             mset (map (\<lambda>r. job_id (row_job r)) rows) = mset (map job_id (pending st))) \<and>
          (\<exists>rows. fst (runPriority qs st) = Inr rows \<and>
             mset (map row_job rows) = mset (pending st) \<and>
             mset (map (\<lambda>r. job_id (row_job r)) rows) = mset (map job_id (pending st)))"
proof (cases "job_count st = 0")
  case True
  then show ?thesis by (simp add: runFCFS_def runSJF_def runPriority_def)
next
  case False
  note i = reachable_invs [OF assms(1), of cmds, folded assms(2)]
  have ids: "mset (map (\<lambda>r. job_id (row_job r)) rows) = mset (map job_id (pending st))"
    if "mset (map row_job rows) = mset (pending st)" for rows :: "row list"
  proof -
    have "mset (map job_id (map row_job rows)) = mset (map job_id (pending st))"
      using that by (simp only: mset_map)
    then show ?thesis by (simp add: comp_def)
  qed
  have f: "fst (runFCFS st) = Inr (timeline (pending st) 0)"
    using i(1) False by (rule runFCFS_rows)
  have s: "fst (runSJF qs st) = Inr (timeline (qs compareSJF (pending st)) 0)"
    using assms(1) i False by (rule runSJF_rows)
  have p: "fst (runPriority qs st) = Inr (timeline (qs comparePriority (pending st)) 0)"
    using assms(1) i False by (rule runPriority_rows)
  have ms: "mset (map row_job (timeline (qs compareSJF (pending st)) 0)) = mset (pending st)"
    using qsort_contractD(1) [OF assms(1) pending_consistent(1) [OF i(1,2)]]
    by (simp add: map_row_job_timeline)
  have mp: "mset (map row_job (timeline (qs comparePriority (pending st)) 0)) = mset (pending st)"
    using qsort_contractD(1) [OF assms(1) pending_consistent(2) [OF i(1,2)]]
    by (simp add: map_row_job_timeline)
  have ff: "map row_job (timeline (pending st) 0) = pending st" by (rule map_row_job_timeline)
  have "(\<exists>rows. fst (runFCFS st) = Inr rows \<and> map row_job rows = pending st) \<and>
          (\<exists>rows. fst (runSJF qs st) = Inr rows \<and>
             mset (map row_job rows) = mset (pending st) \<and>
             mset (map (\<lambda>r. job_id (row_job r)) rows) = mset (map job_id (pending st))) \<and>
          (\<exists>rows. fst (runPriority qs st) = Inr rows \<and>
             mset (map row_job rows) = mset (pending st) \<and>
             mset (map (\<lambda>r. job_id (row_job r)) rows) = mset (map job_id (pending st)))"
    using f s p ff ms mp ids [OF ms] ids [OF mp] by blast
  then show ?thesis using False by (simp only: if_False)
qed

theorem simulation_order_permutation_witness:
  "qsort_contract selection_qsort \<and>
   job_count (snd (session selection_qsort [AddJob 10 2, AddJob 5 1, AddJob 20 3] initial_state)) \<noteq> 0 \<and>
   (\<exists>rows.
      fst (runSJF selection_qsort
        (snd (session selection_qsort [AddJob 10 2, AddJob 5 1, AddJob 20 3] initial_state))) = Inr rows \<and>
      map (\<lambda>r. job_id (row_job r)) rows = [2, 1, 3] \<and>
      mset (map (\<lambda>r. job_id (row_job r)) rows) =
        mset (map job_id
          (pending (snd (session selection_qsort [AddJob 10 2, AddJob 5 1, AddJob 20 3] initial_state)))))"
proof -
  let ?S = "snd (session selection_qsort [AddJob 10 2, AddJob 5 1, AddJob 20 3] initial_state)"
  have nz: "job_count ?S \<noteq> 0" by code_simp
  have ev: "fst (runSJF selection_qsort ?S) =
     Inr [\<lparr>row_job = \<lparr>job_id = 2, page_count = 5, priority = 1\<rparr>, wait_time = 0, turnaround_time = 5\<rparr>,
          \<lparr>row_job = \<lparr>job_id = 1, page_count = 10, priority = 2\<rparr>, wait_time = 5, turnaround_time = 15\<rparr>,
          \<lparr>row_job = \<lparr>job_id = 3, page_count = 20, priority = 3\<rparr>, wait_time = 15, turnaround_time = 35\<rparr>]"
    by code_simp
  have "\<exists>rows. fst (runSJF selection_qsort ?S) = Inr rows \<and>
             mset (map row_job rows) = mset (pending ?S) \<and>
             mset (map (\<lambda>r. job_id (row_job r)) rows) = mset (map job_id (pending ?S))"
    using simulation_order_permutation [OF selection_qsort_contract refl, of "[AddJob 10 2, AddJob 5 1, AddJob 20 3]"] nz
    by (simp only: if_False)
  then obtain rows where r: "fst (runSJF selection_qsort ?S) = Inr rows"
    and m: "mset (map (\<lambda>r. job_id (row_job r)) rows) = mset (map job_id (pending ?S))"
    by blast
  have "Inr rows = fst (runSJF selection_qsort ?S)" using r by (rule sym)
  also note ev
  finally have "map (\<lambda>r. job_id (row_job r)) rows = [2, 1, 3]" by simp
  then show ?thesis using selection_qsort_contract nz r m
    by (intro conjI exI [of _ rows]) assumption+
qed

text \<open>
  C7. No simulation changes the repository. \<^verbatim>\<open>runFCFS\<close> returns the state it was given;
  \<^verbatim>\<open>runSJF\<close> and \<^verbatim>\<open>runPriority\<close> write to \<^verbatim>\<open>temp_queue\<close> only (\<^verbatim>\<open>memcpy\<close> copies into
  it and \<^verbatim>\<open>qsort\<close> sorts it), so \<^verbatim>\<open>job_queue\<close>, \<^verbatim>\<open>job_count\<close> and \<^verbatim>\<open>next_job_id\<close> are
  after the call what they were before it, whatever \<^verbatim>\<open>qsort\<close> does with the cells it is
  given.
\<close>

theorem simulation_frame: 
  "snd (runFCFS st) = st \<and>
   arrays (snd (runSJF qs st)) JOB_QUEUE = arrays st JOB_QUEUE \<and>
   job_count (snd (runSJF qs st)) = job_count st \<and>
   next_job_id (snd (runSJF qs st)) = next_job_id st \<and>
   arrays (snd (runPriority qs st)) JOB_QUEUE = arrays st JOB_QUEUE \<and>
   job_count (snd (runPriority qs st)) = job_count st \<and>
   next_job_id (snd (runPriority qs st)) = next_job_id st"
  by (simp add: runFCFS_state runSJF_frame runPriority_frame)

text \<open>
  C8. The capacity bound is \<open>MAX_JOBS = 100\<close>: no session brings \<^verbatim>\<open>job_count\<close>, the number
  of jobs in the repository, above it. A submission made when the repository is full
  (\<open>job_count \<ge> MAX_JOBS\<close>) is refused with \<open>CapacityExceeded\<close> and the whole state (job
  array, job count, id counter) is returned as it was.
\<close>

theorem addJob_full:
  "MAX_JOBS = 100 \<and>
   job_count (snd (session qs cmds initial_state)) \<le>s MAX_JOBS \<and>
   length (pending (snd (session qs cmds initial_state))) \<le> 100 \<and>
   (MAX_JOBS \<le>s job_count st \<longrightarrow> addJob pages prio st = (Inl CapacityExceeded, st))"
proof -
  have "repo_inv (snd (session qs cmds initial_state))"
    using repo_inv_initial by (rule session_repo_inv)
  then have "job_count (snd (session qs cmds initial_state)) \<le>s MAX_JOBS"
    and "length (pending (snd (session qs cmds initial_state))) \<le> 100"
    by (simp_all add: repo_inv_def pending_def sint_MAX_JOBS)
  then show ?thesis by (simp add: MAX_JOBS_def addJob_def)
qed

theorem addJob_full_witness:
  "MAX_JOBS \<le>s job_count (snd (session selection_qsort (replicate 100 (AddJob 1 1)) initial_state)) \<and>
   addJob 3 1 (snd (session selection_qsort (replicate 100 (AddJob 1 1)) initial_state)) =
     (Inl CapacityExceeded, snd (session selection_qsort (replicate 100 (AddJob 1 1)) initial_state))"
  using addJob_full [of selection_qsort "[]" "snd (session selection_qsort (replicate 100 (AddJob 1 1)) initial_state)" 3 1]
  by (simp add: full_state MAX_JOBS_def word_sle_eq)

text \<open>
  C10. The invariant \<open>repo_inv\<close> (\<open>0 \<le> job_count \<le> MAX_JOBS\<close>,
  \<open>next_job_id = job_count + 1\<close>, the job in cell \<open>i\<close> has id \<open>i + 1\<close>) holds at program
  start and after every session; every choice of the menu preserves it, and so does
  \<^verbatim>\<open>addJob\<close> whether it accepts or refuses. From a state with the invariant \<^verbatim>\<open>addJob\<close>
  never writes outside \<^verbatim>\<open>job_queue\<close>: when it stores a job, \<open>job_count < MAX_JOBS\<close> and
  the job goes to cell \<open>job_count\<close>.
\<close>

theorem repo_inv_preserved:
  "repo_inv initial_state \<and>
   repo_inv (snd (session qs cmds initial_state)) \<and>
   (repo_inv st \<longrightarrow>
      repo_inv (snd (exec qs c st)) \<and>
      repo_inv (snd (addJob pages prio st)) \<and>
      fst (addJob pages prio st) \<noteq> Inl OutOfBounds \<and>
      (\<forall>j. fst (addJob pages prio st) = Inr j \<longrightarrow>
         job_count st <s MAX_JOBS \<and>
         arrays (snd (addJob pages prio st)) JOB_QUEUE =
           (arrays st JOB_QUEUE)[nat (sint (job_count st)) := j]))"
proof -
  have "job_count st <s MAX_JOBS \<and>
         arrays (snd (addJob pages prio st)) JOB_QUEUE =
           (arrays st JOB_QUEUE)[nat (sint (job_count st)) := j]"
    if "fst (addJob pages prio st) = Inr j" for j
  proof -
    have eq: "addJob pages prio st = (Inr j, snd (addJob pages prio st))"
      using that by (simp add: prod_eq_iff)
    note a = addJob_accepted [OF eq]
    show ?thesis using a(2) by (subst a(7)) (simp add: word_sless_alt sint_MAX_JOBS)
  qed
  then show ?thesis
    using repo_inv_initial session_repo_inv [OF repo_inv_initial] exec_repo_inv
      repo_inv_addJob addJob_no_fault
    by blast
qed

theorem repo_inv_preserved_witness:
  "repo_inv (snd (session selection_qsort [AddJob 10 2, AddJob 0 1, AddJob 5 1] initial_state)) \<and>
   job_count (snd (session selection_qsort [AddJob 10 2, AddJob 0 1, AddJob 5 1] initial_state)) = 2 \<and>
   next_job_id (snd (session selection_qsort [AddJob 10 2, AddJob 0 1, AddJob 5 1] initial_state)) = 3 \<and>
   repo_inv (snd (exec selection_qsort RunSJF
      (snd (session selection_qsort [AddJob 10 2, AddJob 0 1, AddJob 5 1] initial_state)))) \<and>
   repo_inv (snd (addJob 20 3
      (snd (session selection_qsort [AddJob 10 2, AddJob 0 1, AddJob 5 1] initial_state)))) \<and>
   fst (addJob 20 3 (snd (session selection_qsort [AddJob 10 2, AddJob 0 1, AddJob 5 1] initial_state)))
     = Inr \<lparr>job_id = 3, page_count = 20, priority = 3\<rparr> \<and>
   job_count (snd (session selection_qsort [AddJob 10 2, AddJob 0 1, AddJob 5 1] initial_state)) <s MAX_JOBS"
proof -
  let ?S = "snd (session selection_qsort [AddJob 10 2, AddJob 0 1, AddJob 5 1] initial_state)"
  have c: "job_count ?S = 2" by code_simp
  have n: "next_job_id ?S = 3" by code_simp
  have r: "fst (addJob 20 3 ?S) = Inr \<lparr>job_id = 3, page_count = 20, priority = 3\<rparr>" by code_simp
  have inv: "repo_inv ?S"
    using repo_inv_preserved [of selection_qsort "[AddJob 10 2, AddJob 0 1, AddJob 5 1]"] by blast
  from repo_inv_preserved [of selection_qsort "[]" ?S RunSJF 20 3] inv c n r
  show ?thesis by blast
qed

end
